theory Spec2Isabelle
  imports Main
begin

section \<open>Go values shared by the proxy package\<close>

text \<open>
  A \<^verbatim>\<open>[]byte\<close> chunk is a list of 8-bit characters. A Go \<^verbatim>\<open>error\<close> is a value:
  \<^verbatim>\<open>io.EOF\<close> (compared by identity in \<^verbatim>\<open>proxy.go\<close>), an error with a message, or an
  error wrapped by \<^verbatim>\<open>fmt.Errorf\<close> under a format string. A \<^verbatim>\<open>nil\<close> error is \<open>None\<close>.
  A run-time panic is a value of its own type: it is not an \<^verbatim>\<open>error\<close> result, it
  unwinds the calling goroutine.
\<close>

type_synonym bytes = "char list"

datatype go_error = EOF | Err string | Errorf string go_error

datatype go_panic =
    SliceBoundsOutOfRange nat nat
  | MakesliceCapOutOfRange
  | NonPositiveTickerInterval

section \<open>buffer.go: the message buffer\<close>

text \<open>
  \<^verbatim>\<open>MessageBuffer\<close> holds the slice \<^verbatim>\<open>messages\<close> and the bound \<^verbatim>\<open>maxSize\<close>. Every method
  takes the mutex for its whole body, so each method is one atomic state transformer and
  the mutex itself is not a field of the model. The outer slice is private to the buffer:
  only its visible elements (a list) matter. The element type is a parameter: chunks by
  value (\<open>bytes\<close>) in the main model, slice headers into a store in the aliasing model
  further down. \<^verbatim>\<open>maxSize\<close> is a Go \<^verbatim>\<open>int\<close>; it is only ever compared, never computed
  with, so an unbounded integer models it.
\<close>

record 'm MessageBuffer =
  messages :: "'m list"
  maxSize :: int

text \<open>
  \<^verbatim>\<open>make([][]byte, 0, size)\<close> panics at run time (makeslice: cap out of range) when
  \<^verbatim>\<open>size\<close> is negative, and when the array asked for, \<^verbatim>\<open>size\<close> slice headers of 24
  bytes each, is larger than the allocator's limit \<^verbatim>\<open>maxAlloc\<close>. The limit is \<open>2 ^ 48\<close>
  bytes on the 64-bit targets of the Makefile (linux, darwin and windows on amd64, darwin
  on arm64), so the first size that panics is 11728124029611. An allocation within the
  limit is taken to succeed.
\<close>

definition maxAlloc :: int where
  "maxAlloc = 2 ^ 48"

definition sliceHeaderSize :: int where
  "sliceHeaderSize = 24"

definition NewMessageBuffer :: "int \<Rightarrow> go_panic + 'm MessageBuffer" where
  "NewMessageBuffer sz =
     (if sz < 0 \<or> sliceHeaderSize * sz > maxAlloc then Inl MakesliceCapOutOfRange
      else Inr \<lparr>messages = [], maxSize = sz\<rparr>)"

text \<open>
  The slice expression \<^verbatim>\<open>s[1:]\<close>: its upper bound defaults to \<^verbatim>\<open>len(s)\<close>, and Go panics
  unless \<open>1 \<le> len(s)\<close>.
\<close>

definition slice_from_1 :: "'a list \<Rightarrow> go_panic + 'a list" where
  "slice_from_1 s =
     (if 1 \<le> length s then Inr (drop 1 s) else Inl (SliceBoundsOutOfRange 1 (length s)))"

text \<open>
  \<^verbatim>\<open>Add\<close> (buffer.go, lines 25-38). At value level the copy made by \<^verbatim>\<open>make\<close> and
  \<^verbatim>\<open>copy\<close> is the chunk itself; \<open>Add_store\<close> below models the copy on a store.
\<close>

definition Add :: "bytes MessageBuffer \<Rightarrow> bytes \<Rightarrow> go_panic + bytes MessageBuffer" where
  "Add b message =
     (case (if int (length (messages b)) \<ge> maxSize b then slice_from_1 (messages b)
            else Inr (messages b)) of
        Inl p \<Rightarrow> Inl p
      | Inr kept \<Rightarrow> Inr (b\<lparr>messages := kept @ [message]\<rparr>))"

text \<open>
  An \<^verbatim>\<open>io.Writer\<close> is a state transformer: \<^verbatim>\<open>Write(p)\<close> takes the chunk and the state
  of the sink behind it, and returns the error (or \<open>None\<close>) and the new state. The byte
  count that \<^verbatim>\<open>Write\<close> also returns is discarded by every caller in the package.
\<close>

type_synonym 's writer = "bytes \<Rightarrow> 's \<Rightarrow> go_error option \<times> 's"

text \<open>The \<^verbatim>\<open>for _, msg := range b.messages\<close> loop of \<^verbatim>\<open>Replay\<close>, with its early return.\<close>

fun replay_loop :: "'s writer \<Rightarrow> bytes list \<Rightarrow> 's \<Rightarrow> go_error option \<times> 's" where
  "replay_loop w [] s = (None, s)"
| "replay_loop w (msg # rest) s =
     (case w msg s of
        (Some err, s') \<Rightarrow> (Some err, s')
      | (None, s') \<Rightarrow> replay_loop w rest s')"

text \<open>
  \<^verbatim>\<open>Replay\<close> (buffer.go, lines 42-55) returns the error, the buffer afterwards and the
  sink afterwards. \<^verbatim>\<open>b.messages[:0]\<close> never panics.
\<close>

definition Replay ::
  "bytes MessageBuffer \<Rightarrow> 's writer \<Rightarrow> 's \<Rightarrow> (go_error option \<times> bytes MessageBuffer) \<times> 's" where
  "Replay b w s =
     (case replay_loop w (messages b) s of
        (Some err, s') \<Rightarrow> ((Some err, b), s')
      | (None, s') \<Rightarrow> ((None, b\<lparr>messages := take 0 (messages b)\<rparr>), s'))"

definition Len :: "'m MessageBuffer \<Rightarrow> int" where
  "Len b = int (length (messages b))"

definition Clear :: "'m MessageBuffer \<Rightarrow> 'm MessageBuffer" where
  "Clear b = b\<lparr>messages := take 0 (messages b)\<rparr>"

subsection \<open>Drivers and sinks used to state the properties\<close>

text \<open>A sequence of \<^verbatim>\<open>Add\<close> calls on one buffer; a panic ends the sequence.\<close>

fun add_calls :: "bytes MessageBuffer \<Rightarrow> bytes list \<Rightarrow> go_panic + bytes MessageBuffer" where
  "add_calls b [] = Inr b"
| "add_calls b (m # ms) = (case Add b m of Inl p \<Rightarrow> Inl p | Inr b' \<Rightarrow> add_calls b' ms)"

text \<open>
  \<open>writes_ok w ms s\<close>: writing the chunks \<open>ms\<close> one after the other from sink state
  \<open>s\<close>, every write succeeds. \<open>sink_after w ms s\<close> is the sink after those writes.
\<close>

fun writes_ok :: "'s writer \<Rightarrow> bytes list \<Rightarrow> 's \<Rightarrow> bool" where
  "writes_ok w [] s = True"
| "writes_ok w (m # ms) s = (fst (w m s) = None \<and> writes_ok w ms (snd (w m s)))"

fun sink_after :: "'s writer \<Rightarrow> bytes list \<Rightarrow> 's \<Rightarrow> 's" where
  "sink_after w [] s = s"
| "sink_after w (m # ms) s = sink_after w ms (snd (w m s))"

text \<open>A sink that accumulates the bytes written to it and never fails.\<close>

definition bytes_write :: "bytes writer" where
  "bytes_write p out = (None, out @ p)"

text \<open>
  A pipe that records each chunk it accepts, accepts \<open>budget\<close> more writes, and fails
  every write after that without taking the chunk.
\<close>

record pipe =
  received :: "bytes list"
  budget :: nat

definition pipe_write :: "pipe writer" where
  "pipe_write p s =
     (if budget s = 0 then (Some (Err ''write: broken pipe''), s)
      else (None, s\<lparr>received := received s @ [p], budget := budget s - 1\<rparr>))"

subsection \<open>The copy made by Add, on a store\<close>

text \<open>
  To speak about aliasing, byte arrays live in a store: the array at address \<open>a\<close> is
  \<open>h ! a\<close>, and allocation appends a new array (the garbage collector never reuses an
  address that is still referenced). A \<^verbatim>\<open>[]byte\<close> value is a slice header: the address
  of its backing array, an offset and a length.
\<close>

type_synonym store = "bytes list"

record slice =
  arr :: nat
  off :: nat
  len :: nat

definition slice_bytes :: "store \<Rightarrow> slice \<Rightarrow> bytes" where
  "slice_bytes h sl = take (len sl) (drop (off sl) (h ! arr sl))"

text \<open>\<^verbatim>\<open>make([]byte, n)\<close>: a new zeroed array and the slice over all of it.\<close>

definition make_bytes :: "nat \<Rightarrow> store \<Rightarrow> slice \<times> store" where
  "make_bytes n h = (\<lparr>arr = length h, off = 0, len = n\<rparr>, h @ [replicate n (CHR 0x00)])"

text \<open>\<^verbatim>\<open>copy(dst, src)\<close> copies \<open>min (len dst) (len src)\<close> bytes into the array of \<open>dst\<close>.\<close>

definition copy_bytes :: "slice \<Rightarrow> slice \<Rightarrow> store \<Rightarrow> store" where
  "copy_bytes dst src h =
     (let n = min (len dst) (len src); a = h ! arr dst
      in h[arr dst := take (off dst) a @ take n (slice_bytes h src) @ drop (off dst + n) a])"

definition Add_store ::
  "slice MessageBuffer \<Rightarrow> slice \<Rightarrow> store \<Rightarrow> go_panic + (slice MessageBuffer \<times> store)" where
  "Add_store b message h =
     (case (if int (length (messages b)) \<ge> maxSize b then slice_from_1 (messages b)
            else Inr (messages b)) of
        Inl p \<Rightarrow> Inl p
      | Inr kept \<Rightarrow>
          (let (msgCopy, h1) = make_bytes (len message) h;
               h2 = copy_bytes msgCopy message h1
           in Inr (b\<lparr>messages := kept @ [msgCopy]\<rparr>, h2)))"

text \<open>The chunks a store-level buffer holds, read through the store, and its value-level image.\<close>

definition contents :: "store \<Rightarrow> slice MessageBuffer \<Rightarrow> bytes list" where
  "contents h b = map (slice_bytes h) (messages b)"

definition abs_buffer :: "store \<Rightarrow> slice MessageBuffer \<Rightarrow> bytes MessageBuffer" where
  "abs_buffer h b = \<lparr>messages = contents h b, maxSize = maxSize b\<rparr>"

text \<open>
  A slice is valid in a store when its array is allocated and the slice lies inside it.
  The buffer's arrays are its own: \<open>owned_apart h b sl\<close> says that the buffered slices
  are valid and none of them shares its array with the caller's slice \<open>sl\<close>.
\<close>

definition valid_slice :: "store \<Rightarrow> slice \<Rightarrow> bool" where
  "valid_slice h sl = (arr sl < length h \<and> off sl + len sl \<le> length (h ! arr sl))"

definition owned_apart :: "store \<Rightarrow> slice MessageBuffer \<Rightarrow> slice \<Rightarrow> bool" where
  "owned_apart h b sl = list_all (\<lambda>x. valid_slice h x \<and> arr x \<noteq> arr sl) (messages b)"

section \<open>proxy.go: the proxy\<close>

text \<open>
  The type \<^verbatim>\<open>PHPProcess\<close> is declared in \<^verbatim>\<open>process.go\<close>, which is not modelled; the
  worker is a parameter of the proxy. A \<^verbatim>\<open>*PHPProcess\<close> is a handle, and each operation
  on it (\<^verbatim>\<open>NewPHPProcess\<close>, \<^verbatim>\<open>Start\<close>, \<^verbatim>\<open>Stop\<close>, \<^verbatim>\<open>Wait\<close>, a write to
  \<^verbatim>\<open>Stdin()\<close>, a read from \<^verbatim>\<open>Stdout()\<close>) is a function of the state of the world outside
  the proxy (the operating system, the pipes), returning its result and the world
  afterwards; so is the write to the client on \<^verbatim>\<open>os.Stdout\<close>. Nothing is assumed about
  these functions.
\<close>

type_synonym handle = nat

record 'e php_ops =
  op_New :: "'e \<Rightarrow> handle \<times> 'e"
  op_Start :: "handle \<Rightarrow> string \<Rightarrow> string \<Rightarrow> 'e \<Rightarrow> go_error option \<times> 'e"
  op_Stop :: "handle \<Rightarrow> 'e \<Rightarrow> go_error option \<times> 'e"
  op_Wait :: "handle \<Rightarrow> 'e \<Rightarrow> go_error option \<times> 'e"
  op_StdinWrite :: "handle \<Rightarrow> bytes \<Rightarrow> 'e \<Rightarrow> go_error option \<times> 'e"
  op_StdoutRead :: "handle \<Rightarrow> 'e \<Rightarrow> (bytes \<times> go_error option) \<times> 'e"
  op_ClientWrite :: "bytes \<Rightarrow> 'e \<Rightarrow> go_error option \<times> 'e"

text \<open>
  What the proxy does to its surroundings is recorded as a trace of events, each stamped
  with the value of \<^verbatim>\<open>p.restarting\<close> at the moment it happens: the calls on the worker
  with their results, the lines handed to \<^verbatim>\<open>log.Printf\<close> (format string and arguments),
  the goroutines started and the back-off sleep.
\<close>

datatype log_arg = ArgErr go_error | ArgInt int

datatype event =
    EvNew handle
  | EvStart handle "go_error option"
  | EvStop handle "go_error option"
  | EvWait handle "go_error option"
  | EvStdinWrite handle bytes "go_error option"
  | EvStdoutRead handle bytes "go_error option"
  | EvClientWrite bytes "go_error option"
  | EvLog string "log_arg list"
  | EvGo string
  | EvSleep

text \<open>
  The struct \<^verbatim>\<open>Proxy\<close>; \<^verbatim>\<open>restartInterval\<close> is a \<^verbatim>\<open>time.Duration\<close>, a count of
  nanoseconds. The state of a run is the struct together with the world and the trace.
\<close>

record Proxy =
  process :: handle
  buffer :: "bytes MessageBuffer"
  restarting :: bool
  workingDir :: string
  phpBinary :: string
  restartInterval :: int

record 'e sys = Proxy +
  world :: 'e
  trace :: "(bool \<times> event) list"



definition emit :: "event \<Rightarrow> 'e sys \<Rightarrow> 'e sys" where
  "emit ev s = s\<lparr>trace := trace s @ [(restarting s, ev)]\<rparr>"

definition log_printf :: "string \<Rightarrow> log_arg list \<Rightarrow> 'e sys \<Rightarrow> 'e sys" where
  "log_printf fmt args s = emit (EvLog fmt args) s"

text \<open>\<^verbatim>\<open>NewProxy\<close> (lines 24-32); the buffer's constructor may panic.\<close>

definition NewProxy ::
  "'e php_ops \<Rightarrow> string \<Rightarrow> string \<Rightarrow> int \<Rightarrow> int \<Rightarrow> 'e \<Rightarrow> go_panic + 'e sys" where
  "NewProxy ops wd bin interval bufferSize w =
     (let (h, w1) = op_New ops w
      in case NewMessageBuffer bufferSize of
           Inl p \<Rightarrow> Inl p
         | Inr b \<Rightarrow>
             Inr (emit (EvNew h)
               \<lparr>process = h, buffer = b, restarting = False, workingDir = wd,
                phpBinary = bin, restartInterval = interval, world = w1, trace = []\<rparr>))"

text \<open>\<^verbatim>\<open>startPHP\<close> (lines 68-71) and \<^verbatim>\<open>stopPHP\<close> (lines 74-76).\<close>

definition startPHP :: "'e php_ops \<Rightarrow> 'e sys \<Rightarrow> go_error option \<times> 'e sys" where
  "startPHP ops s =
     (let s1 = log_printf ''Starting PHP process'' [] s;
          (err, w) = op_Start ops (process s1) (workingDir s1) (phpBinary s1) (world s1)
      in (err, emit (EvStart (process s1) err) (s1\<lparr>world := w\<rparr>)))"

definition stopPHP :: "'e php_ops \<Rightarrow> 'e sys \<Rightarrow> go_error option \<times> 'e sys" where
  "stopPHP ops s =
     (let (err, w) = op_Stop ops (process s) (world s)
      in (err, emit (EvStop (process s) err) (s\<lparr>world := w\<rparr>)))"

text \<open>\<^verbatim>\<open>h.Stdin().Write(msg)\<close>, as a writer on the state of the run.\<close>

definition stdin_write :: "'e php_ops \<Rightarrow> handle \<Rightarrow> 'e sys writer" where
  "stdin_write ops h msg s =
     (let (err, w) = op_StdinWrite ops h msg (world s)
      in (err, emit (EvStdinWrite h msg err) (s\<lparr>world := w\<rparr>)))"

text \<open>
  \<^verbatim>\<open>restartPHP\<close> (lines 79-108). The body runs between the assignment
  \<^verbatim>\<open>p.restarting = true\<close> and the deferred \<^verbatim>\<open>p.restarting = false\<close>, which runs on every
  return path.
\<close>

definition restartPHP_body :: "'e php_ops \<Rightarrow> 'e sys \<Rightarrow> go_error option \<times> 'e sys" where
  "restartPHP_body ops s =
     (let s1 = log_printf ''Buffering messages during restart'' [] s;
          (stop_err, s2) = stopPHP ops s1;
          s3 = (case stop_err of
                  Some err \<Rightarrow> log_printf ''Error stopping PHP: %v'' [ArgErr err] s2
                | None \<Rightarrow> s2);
          (h, w) = op_New ops (world s3);
          s4 = emit (EvNew h) (s3\<lparr>process := h, world := w\<rparr>);
          (start_err, s5) = startPHP ops s4
      in case start_err of
           Some err \<Rightarrow> (Some (Errorf ''failed to start new PHP process: %w'' err), s5)
         | None \<Rightarrow>
             (let bufferLen = Len (buffer s5)
              in if bufferLen > 0 then
                   (let s6 = log_printf ''Replaying %d buffered messages'' [ArgInt bufferLen] s5;
                        ((err, b'), s7) = Replay (buffer s6) (stdin_write ops (process s6)) s6
                    in case err of
                         Some e \<Rightarrow>
                           (Some (Errorf ''failed to replay messages: %w'' e), s7\<lparr>buffer := b'\<rparr>)
                       | None \<Rightarrow> (None, s7\<lparr>buffer := b'\<rparr>))
                 else (None, s5)))"

definition restartPHP :: "'e php_ops \<Rightarrow> 'e sys \<Rightarrow> go_error option \<times> 'e sys" where
  "restartPHP ops s =
     (let (r, s') = restartPHP_body ops (s\<lparr>restarting := True\<rparr>)
      in (r, s'\<lparr>restarting := False\<rparr>))"





text \<open>\<^verbatim>\<open>proxyStdio\<close> (lines 111-117) only starts the two forwarding goroutines.\<close>

definition proxyStdio :: "'e sys \<Rightarrow> 'e sys" where
  "proxyStdio s = emit (EvGo ''proxyStdout'') (emit (EvGo ''proxyStdin'') s)"









subsection \<open>Reading the trace\<close>

text \<open>
  \<open>emitted s s'\<close> are the events added between two states of a run; \<open>calls_of\<close>
  keeps the calls on the worker (allocation, start, stop, writes to its input) and
  \<open>starts_of\<close>, \<open>stops_of\<close>, \<open>stdin_writes_of\<close> and \<open>logs_of\<close> one kind each.
\<close>

definition emitted :: "'e sys \<Rightarrow> 'e sys \<Rightarrow> (bool \<times> event) list" where
  "emitted s s' = drop (length (trace s)) (trace s')"




fun is_log :: "event \<Rightarrow> bool" where
  "is_log (EvLog fmt args) = True"
| "is_log ev = False"


fun is_worker_call :: "event \<Rightarrow> bool" where
  "is_worker_call (EvNew h) = True"
| "is_worker_call (EvStart h r) = True"
| "is_worker_call (EvStop h r) = True"
| "is_worker_call (EvStdinWrite h m r) = True"
| "is_worker_call ev = False"

definition calls_of :: "(bool \<times> event) list \<Rightarrow> event list" where
  "calls_of tr = filter is_worker_call (map snd tr)"




definition logs_of :: "(bool \<times> event) list \<Rightarrow> event list" where
  "logs_of tr = filter is_log (map snd tr)"

text \<open>
  The events of a restart cycle up to and including the start of the new worker: \<open>old\<close>
  is the handle stopped with result \<open>stop_r\<close>, \<open>h\<close> the new handle started with result
  \<open>start_r\<close>.
\<close>

definition cycle_prefix ::
  "handle \<Rightarrow> go_error option \<Rightarrow> handle \<Rightarrow> go_error option \<Rightarrow> event list" where
  "cycle_prefix old stop_r h start_r =
     [EvLog ''Buffering messages during restart'' [], EvStop old stop_r]
     @ (case stop_r of Some e \<Rightarrow> [EvLog ''Error stopping PHP: %v'' [ArgErr e]] | None \<Rightarrow> [])
     @ [EvNew h, EvLog ''Starting PHP process'' [], EvStart h start_r]"

text \<open>
  The events of a replay of the chunks \<open>msgs\<close> into worker \<open>h\<close> in which every write
  succeeds; nothing is logged or written for an empty buffer.
\<close>

definition cycle_replay :: "handle \<Rightarrow> bytes list \<Rightarrow> event list" where
  "cycle_replay h msgs =
     (if msgs = [] then []
      else EvLog ''Replaying %d buffered messages'' [ArgInt (int (length msgs))]
             # map (\<lambda>m. EvStdinWrite h m None) msgs)"

subsection \<open>A scripted worker\<close>

text \<open>
  A concrete world for running the model: handles are numbered in order of allocation,
  and each operation takes its result from a script of its own, succeeding once the
  script is used up. The worker's output is at end of stream and writes to the client
  succeed.
\<close>

record script =
  fresh :: handle
  starts :: "go_error option list"
  stops :: "go_error option list"
  waits :: "go_error option list"
  writes :: "go_error option list"

definition next_result :: "go_error option list \<Rightarrow> go_error option" where
  "next_result rs = (case rs of [] \<Rightarrow> None | r # rest \<Rightarrow> r)"

definition scripted :: "script php_ops" where
  "scripted =
     \<lparr>op_New = (\<lambda>w. (fresh w, w\<lparr>fresh := Suc (fresh w)\<rparr>)),
      op_Start = (\<lambda>h wd bin w. (next_result (starts w), w\<lparr>starts := drop 1 (starts w)\<rparr>)),
      op_Stop = (\<lambda>h w. (next_result (stops w), w\<lparr>stops := drop 1 (stops w)\<rparr>)),
      op_Wait = (\<lambda>h w. (next_result (waits w), w\<lparr>waits := drop 1 (waits w)\<rparr>)),
      op_StdinWrite = (\<lambda>h msg w. (next_result (writes w), w\<lparr>writes := drop 1 (writes w)\<rparr>)),
      op_StdoutRead = (\<lambda>h w. (([], Some EOF), w)),
      op_ClientWrite = (\<lambda>msg w. (None, w))\<rparr>"

text \<open>
  A proxy whose worker 0 is running, with the given chunks buffered, capacity 100 and a
  60 second interval, in a world with the given scripts.
\<close>

definition running :: "script \<Rightarrow> bytes list \<Rightarrow> script sys" where
  "running w msgs =
     \<lparr>process = 0, buffer = \<lparr>messages = msgs, maxSize = 100\<rparr>, restarting = False,
      workingDir = ''/srv/debug-mcp'', phpBinary = ''php'',
      restartInterval = 60000000000, world = w, trace = []\<rparr>"

definition all_succeed :: script where
  "all_succeed = \<lparr>fresh = 1, starts = [], stops = [], waits = [], writes = []\<rparr>"

section \<open>Properties of the message buffer\<close>

subsection \<open>Auxiliary facts\<close>

lemma Add_below:
  "int (length (messages b)) < maxSize b \<Longrightarrow> Add b m = Inr (b\<lparr>messages := messages b @ [m]\<rparr>)"
  by (simp add: Add_def)

lemma Add_full:
  "maxSize b \<le> int (length (messages b)) \<Longrightarrow> messages b \<noteq> [] \<Longrightarrow>
   Add b m = Inr (b\<lparr>messages := tl (messages b) @ [m]\<rparr>)"
  by (cases "messages b") (simp_all add: Add_def slice_from_1_def)

lemma Add_panics_iff:
  "(\<exists>p. Add b m = Inl p) = (messages b = [] \<and> maxSize b \<le> 0)"
  by (cases "messages b") (auto simp: Add_def slice_from_1_def)

text \<open>
  From a buffer within its bound, with a bound of at least one, any sequence of calls
  succeeds and leaves the most recent chunks.
\<close>

lemma add_calls_ok:
  "1 \<le> maxSize b \<Longrightarrow> int (length (messages b)) \<le> maxSize b \<Longrightarrow>
   add_calls b ms =
     Inr (b\<lparr>messages :=
            drop (length (messages b) + length ms - nat (maxSize b)) (messages b @ ms)\<rparr>)"
proof (induction ms arbitrary: b)
  case Nil
  then show ?case by simp
next
  case (Cons m ms)
  show ?case
  proof (cases "int (length (messages b)) < maxSize b")
    case True
    let ?b' = "b\<lparr>messages := messages b @ [m]\<rparr>"
    have a: "Add b m = Inr ?b'" using True by (rule Add_below)
    have "add_calls ?b' ms =
        Inr (?b'\<lparr>messages :=
               drop (length (messages ?b') + length ms - nat (maxSize ?b')) (messages ?b' @ ms)\<rparr>)"
      using True Cons.prems by (intro Cons.IH) simp_all
    then show ?thesis by (simp add: a)
  next
    case False
    then have full: "int (length (messages b)) = maxSize b" using Cons.prems by simp
    then obtain x xs where xs: "messages b = x # xs"
      using Cons.prems by (cases "messages b") auto
    let ?b' = "b\<lparr>messages := tl (messages b) @ [m]\<rparr>"
    have a: "Add b m = Inr ?b'" using full xs by (intro Add_full) simp_all
    have "add_calls ?b' ms =
        Inr (?b'\<lparr>messages :=
               drop (length (messages ?b') + length ms - nat (maxSize ?b')) (messages ?b' @ ms)\<rparr>)"
      using full xs Cons.prems by (intro Cons.IH) simp_all
    moreover have "nat (maxSize b) = Suc (length xs)" using full xs by simp
    ultimately show ?thesis using xs by (simp add: a)
  qed
qed

lemma replay_loop_ok:
  "writes_ok w ms s \<Longrightarrow> replay_loop w ms s = (None, sink_after w ms s)"
  by (induction ms arbitrary: s) (auto split: prod.splits option.splits)

lemma replay_loop_ok_iff:
  "(fst (replay_loop w ms s) = None) = writes_ok w ms s"
  by (induction ms arbitrary: s) (auto split: prod.splits option.splits)

text \<open>A failing loop stopped at the first chunk whose write failed, right after that write.\<close>

lemma replay_loop_fail:
  "fst (replay_loop w ms s) = Some e \<Longrightarrow>
   \<exists>pre m post. ms = pre @ m # post \<and> writes_ok w pre s \<and>
      w m (sink_after w pre s) = (Some e, snd (replay_loop w ms s))"
proof (induction ms arbitrary: s)
  case Nil
  then show ?case by simp
next
  case (Cons a ms)
  show ?case
  proof (cases "fst (w a s)")
    case None
    then have "fst (replay_loop w ms (snd (w a s))) = Some e"
      using Cons.prems by (auto split: prod.splits option.splits)
    from Cons.IH [OF this] obtain pre m post where
      "ms = pre @ m # post" "writes_ok w pre (snd (w a s))"
      "w m (sink_after w pre (snd (w a s))) = (Some e, snd (replay_loop w ms (snd (w a s))))"
      by blast
    then have "a # ms = (a # pre) @ m # post \<and> writes_ok w (a # pre) s \<and>
       w m (sink_after w (a # pre) s) = (Some e, snd (replay_loop w (a # ms) s))"
      using None by (auto split: prod.splits option.splits)
    then show ?thesis by blast
  next
    case (Some e')
    then have "a # ms = [] @ a # ms \<and> writes_ok w [] s \<and>
       w a (sink_after w [] s) = (Some e, snd (replay_loop w (a # ms) s))"
      using Cons.prems by (auto split: prod.splits option.splits)
    then show ?thesis by blast
  qed
qed

lemma sink_after_bytes: "sink_after bytes_write ms out = out @ concat ms"
  by (induction ms arbitrary: out) (simp_all add: bytes_write_def)

lemma writes_ok_bytes: "writes_ok bytes_write ms out"
  by (induction ms arbitrary: out) (simp_all add: bytes_write_def)

lemma Replay_ok:
  "writes_ok w (messages b) s \<Longrightarrow>
   Replay b w s = ((None, b\<lparr>messages := []\<rparr>), sink_after w (messages b) s)"
  by (simp add: Replay_def replay_loop_ok)

lemma Replay_empty: "Replay (b\<lparr>messages := []\<rparr>) w s = ((None, b\<lparr>messages := []\<rparr>), s)"
  by (simp add: Replay_def)

lemma Replay_fails:
  assumes "\<not> writes_ok w (messages b) s"
  shows "\<exists>e pre m post. messages b = pre @ m # post \<and> writes_ok w pre s
       \<and> fst (w m (sink_after w pre s)) = Some e
       \<and> Replay b w s = ((Some e, b), snd (w m (sink_after w pre s)))"
proof -
  from assms obtain e where e: "fst (replay_loop w (messages b) s) = Some e"
    using replay_loop_ok_iff [of w "messages b" s]
    by (cases "fst (replay_loop w (messages b) s)") auto
  from replay_loop_fail [OF e] obtain pre m post where
    split: "messages b = pre @ m # post" and ok: "writes_ok w pre s"
    and fail: "w m (sink_after w pre s) = (Some e, snd (replay_loop w (messages b) s))"
    by blast
  obtain s' where loop: "replay_loop w (messages b) s = (Some e, s')"
    using e by (cases "replay_loop w (messages b) s") auto
  have r: "Replay b w s = ((Some e, b), snd (w m (sink_after w pre s)))"
    using fail by (simp add: Replay_def loop)
  have "fst (w m (sink_after w pre s)) = Some e" using fail by simp
  then show ?thesis using split ok r by blast
qed

subsection \<open>Bounded FIFO retention\<close>

text \<open>
  Claim C1, as stated for every capacity, fails at capacity 0: the buffer is created, and
  the first \<^verbatim>\<open>Add\<close> panics instead of leaving a buffer with the last 0 chunks. It also
  fails at the capacities beyond the allocator's limit, the first of which is
  11728124029611: the constructor panics and there is no buffer to add to.
\<close>

theorem add_capacity_zero_counterexample:
  "NewMessageBuffer 0 = Inr (\<lparr>messages = [], maxSize = 0\<rparr> :: bytes MessageBuffer)
   \<and> add_calls \<lparr>messages = [], maxSize = 0\<rparr> [''a''] = Inl (SliceBoundsOutOfRange 1 0)
   \<and> (NewMessageBuffer 11728124029611 :: go_panic + bytes MessageBuffer)
       = Inl MakesliceCapOutOfRange"
  by (simp add: NewMessageBuffer_def maxAlloc_def sliceHeaderSize_def Add_def slice_from_1_def)

text \<open>
  Claim C1, amended to the capacities from 1 up to the allocator's limit. For such a
  capacity \<open>C\<close> the constructor returns a buffer, and for more than \<open>C\<close> calls of \<^verbatim>\<open>Add\<close>
  on that new buffer: the calls all return, the buffer then holds
  exactly the last \<open>C\<close> chunks in arrival order; after every prefix of the calls the
  length is at most \<open>C\<close>; and a call on a buffer holding \<open>C\<close> chunks drops the oldest
  chunk, whole, and appends the new one.
\<close>

theorem add_keeps_last_C:
  assumes "1 \<le> C" and "sliceHeaderSize * C \<le> maxAlloc" and "int (length ms) > C"
  shows "NewMessageBuffer C = Inr (\<lparr>messages = [], maxSize = C\<rparr> :: bytes MessageBuffer)
     \<and> add_calls \<lparr>messages = [], maxSize = C\<rparr> ms
         = Inr \<lparr>messages = drop (length ms - nat C) ms, maxSize = C\<rparr>
     \<and> length (drop (length ms - nat C) ms) = nat C
     \<and> (\<forall>k \<le> length ms. \<exists>bk. add_calls \<lparr>messages = [], maxSize = C\<rparr> (take k ms) = Inr bk
            \<and> int (length (messages bk)) \<le> C)
     \<and> (\<forall>b m. maxSize b = C \<and> int (length (messages b)) = C \<longrightarrow>
            Add b m = Inr (b\<lparr>messages := tl (messages b) @ [m]\<rparr>))"
proof -
  let ?b0 = "\<lparr>messages = [], maxSize = C\<rparr> :: bytes MessageBuffer"
  have run: "add_calls ?b0 xs = Inr \<lparr>messages = drop (length xs - nat C) xs, maxSize = C\<rparr>" for xs
    using add_calls_ok [of ?b0 xs] assms(1) by simp
  have new: "NewMessageBuffer C = Inr ?b0"
    using assms(1,2) by (simp add: NewMessageBuffer_def)
  have full: "length (drop (length ms - nat C) ms) = nat C"
    using assms by simp
  have bound: "\<forall>k \<le> length ms. \<exists>bk. add_calls ?b0 (take k ms) = Inr bk
      \<and> int (length (messages bk)) \<le> C"
    using assms(1) by (auto simp: run)
  have evict: "\<forall>b m. maxSize b = C \<and> int (length (messages b)) = C \<longrightarrow>
      Add b m = Inr (b\<lparr>messages := tl (messages b) @ [m]\<rparr>)"
  proof (intro allI impI)
    fix b :: "bytes MessageBuffer" and m
    assume h: "maxSize b = C \<and> int (length (messages b)) = C"
    then have "messages b \<noteq> []" using assms(1) by auto
    then show "Add b m = Inr (b\<lparr>messages := tl (messages b) @ [m]\<rparr>)"
      using h by (intro Add_full) simp_all
  qed
  show ?thesis by (intro conjI new run full bound evict)
qed

theorem add_keeps_last_C_witness:
  "(1::int) \<le> 3 \<and> sliceHeaderSize * 3 \<le> maxAlloc
   \<and> int (length [''a'', ''b'', ''c'', ''d'']) > 3
   \<and> NewMessageBuffer 3 = Inr (\<lparr>messages = [], maxSize = 3\<rparr> :: bytes MessageBuffer)
   \<and> add_calls \<lparr>messages = [], maxSize = 3\<rparr> [''a'', ''b'', ''c'', ''d'']
       = Inr \<lparr>messages = [''b'', ''c'', ''d''], maxSize = 3\<rparr>"
  using add_keeps_last_C [of 3 "[''a'', ''b'', ''c'', ''d'']"]
  by (simp add: Add_def slice_from_1_def maxAlloc_def sliceHeaderSize_def)

subsection \<open>Replay\<close>

text \<open>
  Claim C2. When every write of the replay succeeds, \<^verbatim>\<open>Replay\<close> returns no error, the
  sink has received every buffered chunk in arrival order, and the buffer is empty:
  \<^verbatim>\<open>Len\<close> is 0, and a replay right after it writes nothing, whatever the sink. On a sink
  that accumulates bytes the output is the concatenation of the chunks in order.
\<close>

theorem replay_writes_all_then_clears:
  assumes "writes_ok w (messages b) s"
  shows "Replay b w s = ((None, b\<lparr>messages := []\<rparr>), sink_after w (messages b) s)
     \<and> Len (snd (fst (Replay b w s))) = 0
     \<and> (\<forall>w' s'. Replay (snd (fst (Replay b w s))) w' s' = ((None, b\<lparr>messages := []\<rparr>), s'))
     \<and> Replay b bytes_write out = ((None, b\<lparr>messages := []\<rparr>), out @ concat (messages b))"
proof -
  have r: "Replay b w s = ((None, b\<lparr>messages := []\<rparr>), sink_after w (messages b) s)"
    using assms by (rule Replay_ok)
  have "Replay b bytes_write out = ((None, b\<lparr>messages := []\<rparr>), out @ concat (messages b))"
    by (simp add: Replay_ok writes_ok_bytes sink_after_bytes)
  then show ?thesis
    by (simp add: r Len_def Replay_empty)
qed

theorem replay_writes_all_then_clears_witness:
  "add_calls \<lparr>messages = [], maxSize = 3\<rparr> [''a'', ''b'', ''c'', ''d'']
       = Inr \<lparr>messages = [''b'', ''c'', ''d''], maxSize = 3\<rparr>
   \<and> writes_ok bytes_write (messages \<lparr>messages = [''b'', ''c'', ''d''], maxSize = 3\<rparr>) []
   \<and> Replay \<lparr>messages = [''b'', ''c'', ''d''], maxSize = 3\<rparr> bytes_write []
       = ((None, \<lparr>messages = [], maxSize = 3\<rparr>), ''bcd'')
   \<and> Len \<lparr>messages = ([] :: bytes list), maxSize = 3\<rparr> = 0"
  using replay_writes_all_then_clears
    [of bytes_write "\<lparr>messages = [''b'', ''c'', ''d''], maxSize = 3\<rparr>" "[]" "[]"]
  by (simp add: Add_def slice_from_1_def bytes_write_def Len_def Replay_def)

text \<open>
  Claim C9. When some write of the replay fails, \<^verbatim>\<open>Replay\<close> returns the error of the
  first failing write, nothing is written after it, and the buffer is returned as it
  was: the chunks written before the failure are still in it, so a later replay whose
  writes all succeed sends them again, with the rest.
\<close>

theorem replay_failure_keeps_buffer:
  assumes "\<not> writes_ok w (messages b) s"
  shows "\<exists>e pre m post. messages b = pre @ m # post \<and> writes_ok w pre s
       \<and> fst (w m (sink_after w pre s)) = Some e
       \<and> Replay b w s = ((Some e, b), snd (w m (sink_after w pre s)))
       \<and> (\<forall>w2 s2. writes_ok w2 (messages b) s2 \<longrightarrow>
            Replay (snd (fst (Replay b w s))) w2 s2
              = ((None, b\<lparr>messages := []\<rparr>), sink_after w2 (pre @ m # post) s2))"
proof -
  from Replay_fails [OF assms] obtain e pre m post where
    split: "messages b = pre @ m # post" and ok: "writes_ok w pre s"
    and fail: "fst (w m (sink_after w pre s)) = Some e"
    and r: "Replay b w s = ((Some e, b), snd (w m (sink_after w pre s)))"
    by blast
  have again: "\<forall>w2 s2. writes_ok w2 (messages b) s2 \<longrightarrow>
      Replay (snd (fst (Replay b w s))) w2 s2
        = ((None, b\<lparr>messages := []\<rparr>), sink_after w2 (pre @ m # post) s2)"
    using split by (simp add: r Replay_ok)
  show ?thesis using split ok fail r again by blast
qed

theorem replay_failure_keeps_buffer_witness:
  "\<not> writes_ok pipe_write (messages \<lparr>messages = [''a'', ''b'', ''c''], maxSize = 3\<rparr>)
        \<lparr>received = [], budget = 1\<rparr>
   \<and> Replay \<lparr>messages = [''a'', ''b'', ''c''], maxSize = 3\<rparr> pipe_write
         \<lparr>received = [], budget = 1\<rparr>
       = ((Some (Err ''write: broken pipe''), \<lparr>messages = [''a'', ''b'', ''c''], maxSize = 3\<rparr>),
          \<lparr>received = [''a''], budget = 0\<rparr>)
   \<and> Replay \<lparr>messages = [''a'', ''b'', ''c''], maxSize = 3\<rparr> pipe_write
         \<lparr>received = [''a''], budget = 3\<rparr>
       = ((None, \<lparr>messages = [], maxSize = 3\<rparr>),
          \<lparr>received = [''a'', ''a'', ''b'', ''c''], budget = 0\<rparr>)"
  using replay_failure_keeps_buffer
    [of pipe_write "\<lparr>messages = [''a'', ''b'', ''c''], maxSize = 3\<rparr>"
        "\<lparr>received = [], budget = 1\<rparr>"]
  by (simp add: Replay_def pipe_write_def)

subsection \<open>Buffers without capacity\<close>

text \<open>
  Claim C10, as stated, covers a buffer created with a negative maximum size. There is no
  such buffer to call \<^verbatim>\<open>Add\<close> on: the constructor itself panics in \<^verbatim>\<open>make\<close>.
\<close>

theorem negative_size_counterexample:
  "(NewMessageBuffer (- 1) :: go_panic + bytes MessageBuffer) = Inl MakesliceCapOutOfRange"
  by (simp add: NewMessageBuffer_def maxAlloc_def sliceHeaderSize_def)

text \<open>
  Claim C10, amended. A buffer created with maximum size 0 exists and its first \<^verbatim>\<open>Add\<close>
  panics, slicing \<^verbatim>\<open>[1:]\<close> of the empty list in the eviction branch. With a negative size
  \<^verbatim>\<open>NewMessageBuffer\<close> panics before any buffer exists; a buffer value with an empty list
  and a bound of 0 or less, however obtained, makes \<^verbatim>\<open>Add\<close> panic the same way.
  \<^verbatim>\<open>Add\<close> panics in no other state, and from a new buffer of capacity at least 1 no
  sequence of calls panics.
\<close>

theorem add_panics_without_capacity:
  "NewMessageBuffer 0 = Inr (\<lparr>messages = [], maxSize = 0\<rparr> :: bytes MessageBuffer)
   \<and> Add \<lparr>messages = [], maxSize = 0\<rparr> m = Inl (SliceBoundsOutOfRange 1 0)
   \<and> (sz < 0 \<longrightarrow>
        (NewMessageBuffer sz :: go_panic + bytes MessageBuffer) = Inl MakesliceCapOutOfRange)
   \<and> (messages b = [] \<and> maxSize b \<le> 0 \<longrightarrow> Add b m = Inl (SliceBoundsOutOfRange 1 0))
   \<and> ((\<exists>p. Add b m = Inl p) = (messages b = [] \<and> maxSize b \<le> 0))
   \<and> (1 \<le> sz \<longrightarrow> (\<exists>b'. add_calls \<lparr>messages = [], maxSize = sz\<rparr> ms = Inr b'))"
proof -
  have "1 \<le> sz \<longrightarrow> (\<exists>b'. add_calls \<lparr>messages = [], maxSize = sz\<rparr> ms = Inr b')"
    using add_calls_ok [of "\<lparr>messages = [], maxSize = sz\<rparr>" ms] by simp
  moreover have "messages b = [] \<and> maxSize b \<le> 0 \<longrightarrow> Add b m = Inl (SliceBoundsOutOfRange 1 0)"
    by (simp add: Add_def slice_from_1_def)
  ultimately show ?thesis
    using Add_panics_iff [of b m] by (simp add: NewMessageBuffer_def maxAlloc_def sliceHeaderSize_def Add_def slice_from_1_def)
qed

theorem add_panics_without_capacity_witness:
  "Add \<lparr>messages = [], maxSize = 0\<rparr> ''x'' = Inl (SliceBoundsOutOfRange 1 0)
   \<and> (NewMessageBuffer (- 1) :: go_panic + bytes MessageBuffer) = Inl MakesliceCapOutOfRange
   \<and> Add \<lparr>messages = [], maxSize = - 1\<rparr> ''x'' = Inl (SliceBoundsOutOfRange 1 0)
   \<and> add_calls \<lparr>messages = [], maxSize = 1\<rparr> [''x'', ''y'']
       = Inr \<lparr>messages = [''y''], maxSize = 1\<rparr>"
  using add_panics_without_capacity
      [of "''x''" "- 1" "\<lparr>messages = [], maxSize = - 1\<rparr>" "[''x'', ''y'']"]
    add_panics_without_capacity
      [of "''x''" "1" "\<lparr>messages = [], maxSize = - 1\<rparr>" "[''x'', ''y'']"]
  by (simp add: Add_def slice_from_1_def)

subsection \<open>The copy made by Add\<close>

lemma slice_bytes_append:
  "arr sl < length h \<Longrightarrow> slice_bytes (h @ hs) sl = slice_bytes h sl"
  by (simp add: slice_bytes_def nth_append)

lemma length_slice_bytes:
  "valid_slice h sl \<Longrightarrow> length (slice_bytes h sl) = len sl"
  by (auto simp: slice_bytes_def valid_slice_def)

text \<open>\<^verbatim>\<open>make\<close> followed by \<^verbatim>\<open>copy\<close> appends one array holding the bytes of the chunk.\<close>

lemma make_then_copy:
  assumes "valid_slice h message"
  shows "copy_bytes (fst (make_bytes (len message) h)) message (snd (make_bytes (len message) h))
         = h @ [slice_bytes h message]"
proof -
  have a: "arr message < length h" using assms by (simp add: valid_slice_def)
  have "slice_bytes (h @ [replicate (len message) (CHR 0x00)]) message = slice_bytes h message"
    using a by (rule slice_bytes_append)
  then show ?thesis
    using length_slice_bytes [OF assms]
    by (simp add: copy_bytes_def make_bytes_def Let_def)
qed

lemma Add_store_eq:
  assumes "valid_slice h message"
  shows "Add_store b message h =
     (case (if int (length (messages b)) \<ge> maxSize b then slice_from_1 (messages b)
            else Inr (messages b)) of
        Inl p \<Rightarrow> Inl p
      | Inr kept \<Rightarrow>
          Inr (b\<lparr>messages := kept @ [\<lparr>arr = length h, off = 0, len = len message\<rparr>]\<rparr>,
               h @ [slice_bytes h message]))"
  using make_then_copy [OF assms]
  by (simp add: Add_store_def Let_def make_bytes_def split: sum.splits prod.splits)

lemma slice_bytes_copy:
  "valid_slice h message \<Longrightarrow>
   slice_bytes ((h @ [slice_bytes h message])[arr message := junk])
      \<lparr>arr = length h, off = 0, len = len message\<rparr> = slice_bytes h message"
  by (simp add: slice_bytes_def valid_slice_def nth_append)

lemma slice_bytes_kept:
  "valid_slice h x \<Longrightarrow> arr x \<noteq> a \<Longrightarrow> slice_bytes ((h @ hs)[a := junk]) x = slice_bytes h x"
  by (simp add: slice_bytes_def valid_slice_def nth_append)

lemma slice_bytes_kept_append:
  "valid_slice h x \<Longrightarrow> slice_bytes (h @ hs) x = slice_bytes h x"
  by (simp add: slice_bytes_def valid_slice_def nth_append)

lemma valid_slice_append: "valid_slice h x \<Longrightarrow> valid_slice (h @ hs) x"
  by (simp add: valid_slice_def nth_append)

lemma owned_drop:
  "owned_apart h b sl \<Longrightarrow>
   list_all (\<lambda>x. valid_slice h x \<and> arr x \<noteq> arr sl) (drop n (messages b))"
  by (auto simp: owned_apart_def list_all_iff dest: in_set_dropD)

text \<open>The store-level \<^verbatim>\<open>Add\<close> against the value-level one, and the separation it keeps.\<close>

lemma Add_store_refines:
  assumes "valid_slice h message" and "owned_apart h b message"
  shows "map_sum id (\<lambda>(b', h'). abs_buffer h' b') (Add_store b message h)
           = Add (abs_buffer h b) (slice_bytes h message)
     \<and> (\<forall>b' h' junk. Add_store b message h = Inr (b', h') \<longrightarrow>
           contents (h'[arr message := junk]) b' = contents h' b'
         \<and> last (contents h' b') = slice_bytes h message
         \<and> valid_slice h' message \<and> owned_apart h' b' message)
     \<and> (1 \<le> maxSize b \<longrightarrow> (\<exists>b' h'. Add_store b message h = Inr (b', h')))"
proof -
  let ?c = "\<lparr>arr = length h, off = 0, len = len message\<rparr>"
  let ?h' = "h @ [slice_bytes h message]"
  have lt: "arr message < length h" using assms(1) by (simp add: valid_slice_def)
  have kept: "list_all (\<lambda>x. valid_slice h x \<and> arr x \<noteq> arr message) (drop n (messages b))" for n
    using assms(2) by (rule owned_drop)
  have old: "map (slice_bytes (?h'[arr message := junk])) (drop n (messages b))
               = map (slice_bytes h) (drop n (messages b))" for n junk
    using kept [where n = n] by (auto simp: list_all_iff slice_bytes_kept)
  have old': "map (slice_bytes ?h') (drop n (messages b))
               = map (slice_bytes h) (drop n (messages b))" for n
    using kept [where n = n] by (auto simp: list_all_iff slice_bytes_kept_append)
  have new: "slice_bytes (?h'[arr message := junk]) ?c = slice_bytes h message" for junk
    using assms(1) by (rule slice_bytes_copy)
  have new': "slice_bytes ?h' ?c = slice_bytes h message"
    using new [of "?h' ! arr message"] by simp
  have cval: "valid_slice ?h' ?c \<and> arr ?c \<noteq> arr message"
    using lt length_slice_bytes [OF assms(1)] by (simp add: valid_slice_def)
  have own: "list_all (\<lambda>x. valid_slice ?h' x \<and> arr x \<noteq> arr message) (drop n (messages b))" for n
    using kept [where n = n] by (auto simp: list_all_iff valid_slice_append)
  show ?thesis
  proof (cases "int (length (messages b)) \<ge> maxSize b")
    case True
    show ?thesis
    proof (cases "messages b")
      case Nil
      then show ?thesis using True
        by (simp add: Add_store_eq [OF assms(1)] Add_def slice_from_1_def abs_buffer_def
            contents_def)
    next
      case (Cons x xs)
      then show ?thesis
        using True old [where n = 1] old' [where n = 1] new new' own [where n = 1] cval
          valid_slice_append [OF assms(1)]
        by (simp add: Add_store_eq [OF assms(1)] Add_def slice_from_1_def abs_buffer_def
            contents_def owned_apart_def)
    qed
  next
    case False
    then show ?thesis
      using old [where n = 0] old' [where n = 0] new new' own [where n = 0] cval
        valid_slice_append [OF assms(1)]
      by (simp add: Add_store_eq [OF assms(1)] Add_def abs_buffer_def contents_def
          owned_apart_def)
  qed
qed

text \<open>
  Claim C8. For a caller's chunk that is a valid slice, and a buffer whose own arrays are
  apart from it: the store-level \<^verbatim>\<open>Add\<close> does what the value-level \<^verbatim>\<open>Add\<close> does on the
  bytes the chunk holds at the call (same panic, or the same buffer contents); when it
  returns, the last buffered chunk equals those bytes, and whatever is written into the
  caller's array afterwards leaves the buffered contents as they are, so that a replay
  after the overwrite sends the bytes as they were at the call; the buffer's arrays stay
  apart from the caller's. With a bound of at least 1 the call returns.
\<close>

theorem add_stores_a_copy:
  assumes "valid_slice h message" and "owned_apart h b message"
  shows "map_sum id (\<lambda>(b', h'). abs_buffer h' b') (Add_store b message h)
           = Add (abs_buffer h b) (slice_bytes h message)
     \<and> (\<forall>b' h' junk. Add_store b message h = Inr (b', h') \<longrightarrow>
           contents (h'[arr message := junk]) b' = contents h' b'
         \<and> last (contents h' b') = slice_bytes h message
         \<and> valid_slice h' message \<and> owned_apart h' b' message
         \<and> (\<forall>out. snd (Replay (abs_buffer (h'[arr message := junk]) b') bytes_write out)
                  = out @ concat (contents h' b')))
     \<and> (1 \<le> maxSize b \<longrightarrow> (\<exists>b' h'. Add_store b message h = Inr (b', h')))"
proof -
  note base = Add_store_refines [OF assms]
  have replay: "snd (Replay (abs_buffer st bf) bytes_write out) = out @ concat (contents st bf)"
    for st bf out
    by (simp add: Replay_ok writes_ok_bytes sink_after_bytes abs_buffer_def)
  have mid: "\<forall>b' h' junk. Add_store b message h = Inr (b', h') \<longrightarrow>
           contents (h'[arr message := junk]) b' = contents h' b'
         \<and> last (contents h' b') = slice_bytes h message
         \<and> valid_slice h' message \<and> owned_apart h' b' message
         \<and> (\<forall>out. snd (Replay (abs_buffer (h'[arr message := junk]) b') bytes_write out)
                  = out @ concat (contents h' b'))"
  proof (intro allI impI)
    fix b' h' junk
    assume "Add_store b message h = Inr (b', h')"
    with base have c: "contents (h'[arr message := junk]) b' = contents h' b'
         \<and> last (contents h' b') = slice_bytes h message
         \<and> valid_slice h' message \<and> owned_apart h' b' message"
      by blast
    then show "contents (h'[arr message := junk]) b' = contents h' b'
         \<and> last (contents h' b') = slice_bytes h message
         \<and> valid_slice h' message \<and> owned_apart h' b' message
         \<and> (\<forall>out. snd (Replay (abs_buffer (h'[arr message := junk]) b') bytes_write out)
                  = out @ concat (contents h' b'))"
      by (simp add: replay)
  qed
  from base mid show ?thesis by blast
qed

text \<open>
  The caller's two-byte array first holds \<open>xq\<close>; its first byte is added, the array is
  overwritten with \<open>yq\<close>, and its first byte is added again: the buffer holds \<open>x\<close>, \<open>y\<close>.
\<close>

theorem add_stores_a_copy_witness:
  "valid_slice [''xq''] \<lparr>arr = 0, off = 0, len = 1\<rparr>
   \<and> owned_apart [''xq''] \<lparr>messages = [], maxSize = 3\<rparr> \<lparr>arr = 0, off = 0, len = 1\<rparr>
   \<and> Add_store \<lparr>messages = [], maxSize = 3\<rparr> \<lparr>arr = 0, off = 0, len = 1\<rparr> [''xq'']
       = Inr (\<lparr>messages = [\<lparr>arr = 1, off = 0, len = 1\<rparr>], maxSize = 3\<rparr>, [''xq'', ''x''])
   \<and> contents ([''xq'', ''x''][0 := ''yq''])
         \<lparr>messages = [\<lparr>arr = 1, off = 0, len = 1\<rparr>], maxSize = 3\<rparr> = [''x'']
   \<and> Add_store \<lparr>messages = [\<lparr>arr = 1, off = 0, len = 1\<rparr>], maxSize = 3\<rparr>
         \<lparr>arr = 0, off = 0, len = 1\<rparr> [''yq'', ''x'']
       = Inr (\<lparr>messages = [\<lparr>arr = 1, off = 0, len = 1\<rparr>, \<lparr>arr = 2, off = 0, len = 1\<rparr>],
               maxSize = 3\<rparr>, [''yq'', ''x'', ''y''])
   \<and> contents [''yq'', ''x'', ''y'']
         \<lparr>messages = [\<lparr>arr = 1, off = 0, len = 1\<rparr>, \<lparr>arr = 2, off = 0, len = 1\<rparr>],
          maxSize = 3\<rparr> = [''x'', ''y'']"
  using add_stores_a_copy
    [of "[''xq'']" "\<lparr>arr = 0, off = 0, len = 1\<rparr>" "\<lparr>messages = [], maxSize = 3\<rparr>"]
  by (simp add: valid_slice_def owned_apart_def Add_store_def make_bytes_def copy_bytes_def
      slice_bytes_def contents_def Let_def)

section \<open>Properties of the proxy\<close>

text \<open>
  Each function of \<^verbatim>\<open>proxy.go\<close> is taken as run by its own goroutine without steps of
  the other goroutines in between; the shared fields it reads are those of the state it
  is applied to.
\<close>

subsection \<open>Auxiliary facts\<close>

lemma stdin_write_eq:
  "stdin_write ops h m s =
     (fst (op_StdinWrite ops h m (world s)),
      s\<lparr>world := snd (op_StdinWrite ops h m (world s)),
        trace := trace s @ [(restarting s, EvStdinWrite h m (fst (op_StdinWrite ops h m (world s))))]\<rparr>)"
  by (simp add: stdin_write_def emit_def split: prod.splits)

lemma stdin_write_fst:
  "fst (stdin_write ops h m s) = fst (op_StdinWrite ops h m (world s))"
  by (simp add: stdin_write_eq)

lemma stdin_write_snd:
  "snd (stdin_write ops h m s) =
      s\<lparr>world := snd (op_StdinWrite ops h m (world s)),
        trace := trace s @ [(restarting s, EvStdinWrite h m (fst (op_StdinWrite ops h m (world s))))]\<rparr>"
  by (simp add: stdin_write_eq)

lemma stdin_write_world:
  "world (snd (stdin_write ops h m s)) = snd (op_StdinWrite ops h m (world s))"
  by (simp add: stdin_write_snd)



lemma writes_ok_append:
  "writes_ok w (xs @ ys) s = (writes_ok w xs s \<and> writes_ok w ys (sink_after w xs s))"
  by (induction xs arbitrary: s) auto

lemma sink_after_append:
  "sink_after w (xs @ ys) s = sink_after w ys (sink_after w xs s)"
  by (induction xs arbitrary: s) auto

lemma messages_Nil_upd: "messages b = [] \<Longrightarrow> b\<lparr>messages := []\<rparr> = b"
  by (cases b) simp

text \<open>
  A replay into the input of worker \<open>h\<close> calls \<^verbatim>\<open>Write\<close> on it once per chunk, in order,
  each call on the world the previous one left: its writes succeed exactly when those
  calls do, and it leaves the world those calls leave.
\<close>

lemma writes_ok_stdin:
  "writes_ok (stdin_write ops h) ms s = writes_ok (op_StdinWrite ops h) ms (world s)"
proof (induction ms arbitrary: s)
  case Nil
  show ?case by simp
next
  case (Cons m ms)
  have "writes_ok (stdin_write ops h) (m # ms) s
      = (fst (stdin_write ops h m s) = None
         \<and> writes_ok (stdin_write ops h) ms (snd (stdin_write ops h m s)))"
    by simp
  also have "\<dots> = (fst (op_StdinWrite ops h m (world s)) = None
         \<and> writes_ok (op_StdinWrite ops h) ms (snd (op_StdinWrite ops h m (world s))))"
    by (simp only: stdin_write_fst Cons.IH stdin_write_world)
  also have "\<dots> = writes_ok (op_StdinWrite ops h) (m # ms) (world s)"
    by simp
  finally show ?case .
qed

lemma sink_after_stdin:
  "writes_ok (op_StdinWrite ops h) ms (world s) \<Longrightarrow>
   sink_after (stdin_write ops h) ms s =
     s\<lparr>world := sink_after (op_StdinWrite ops h) ms (world s),
       trace := trace s @ map (\<lambda>m. (restarting s, EvStdinWrite h m None)) ms\<rparr>"
proof (induction ms arbitrary: s)
  case Nil
  show ?case by simp
next
  case (Cons m ms)
  let ?s1 = "snd (stdin_write ops h m s)"
  from Cons.prems have ok: "fst (op_StdinWrite ops h m (world s)) = None"
    and rest: "writes_ok (op_StdinWrite ops h) ms (snd (op_StdinWrite ops h m (world s)))"
    by simp_all
  have w1: "world ?s1 = snd (op_StdinWrite ops h m (world s))" by (rule stdin_write_world)
  from rest have "writes_ok (op_StdinWrite ops h) ms (world ?s1)" by (simp only: w1)
  from Cons.IH [OF this] have
    "sink_after (stdin_write ops h) ms ?s1 =
       ?s1\<lparr>world := sink_after (op_StdinWrite ops h) ms (world ?s1),
           trace := trace ?s1 @ map (\<lambda>m. (restarting ?s1, EvStdinWrite h m None)) ms\<rparr>" .
  then have "sink_after (stdin_write ops h) ms ?s1 =
     s\<lparr>world := sink_after (op_StdinWrite ops h) (m # ms) (world s),
       trace := trace s @ map (\<lambda>m. (restarting s, EvStdinWrite h m None)) (m # ms)\<rparr>"
    using ok by (simp add: stdin_write_snd)
  then show ?case by simp
qed

lemma Replay_stdin_ok:
  assumes "writes_ok (op_StdinWrite ops h) (messages b) (world s)"
  shows "Replay b (stdin_write ops h) s =
     ((None, b\<lparr>messages := []\<rparr>),
      s\<lparr>world := sink_after (op_StdinWrite ops h) (messages b) (world s),
        trace := trace s @ map (Pair (restarting s))
                   (map (\<lambda>m. EvStdinWrite h m None) (messages b))\<rparr>)"
proof -
  have ok: "writes_ok (stdin_write ops h) (messages b) s"
    using assms by (simp only: writes_ok_stdin)
  show ?thesis
    by (simp add: Replay_ok [OF ok] sink_after_stdin [OF assms] comp_def)
qed

lemma Replay_stdin_fails:
  assumes "\<not> writes_ok (op_StdinWrite ops h) (messages b) (world s)"
  shows "\<exists>e pre m post W. messages b = pre @ m # post
       \<and> writes_ok (op_StdinWrite ops h) pre (world s)
       \<and> op_StdinWrite ops h m (sink_after (op_StdinWrite ops h) pre (world s)) = (Some e, W)
       \<and> Replay b (stdin_write ops h) s =
           ((Some e, b),
            s\<lparr>world := W,
              trace := trace s @ map (Pair (restarting s))
                 (map (\<lambda>m. EvStdinWrite h m None) pre @ [EvStdinWrite h m (Some e)])\<rparr>)"
proof -
  have bad: "\<not> writes_ok (stdin_write ops h) (messages b) s"
    using assms by (simp add: writes_ok_stdin)
  from Replay_fails [OF bad] obtain e pre m post where
    split: "messages b = pre @ m # post" and ok: "writes_ok (stdin_write ops h) pre s"
    and fail: "fst (stdin_write ops h m (sink_after (stdin_write ops h) pre s)) = Some e"
    and rep: "Replay b (stdin_write ops h) s
        = ((Some e, b), snd (stdin_write ops h m (sink_after (stdin_write ops h) pre s)))"
    by blast
  have ok': "writes_ok (op_StdinWrite ops h) pre (world s)"
    using ok by (simp only: writes_ok_stdin)
  let ?w = "sink_after (op_StdinWrite ops h) pre (world s)"
  have s1: "sink_after (stdin_write ops h) pre s =
     s\<lparr>world := ?w, trace := trace s @ map (\<lambda>m. (restarting s, EvStdinWrite h m None)) pre\<rparr>"
    by (rule sink_after_stdin [OF ok'])
  have e: "fst (op_StdinWrite ops h m ?w) = Some e"
    using fail by (simp add: stdin_write_fst s1)
  then have call: "op_StdinWrite ops h m ?w = (Some e, snd (op_StdinWrite ops h m ?w))"
    by (metis prod.collapse)
  have "Replay b (stdin_write ops h) s =
           ((Some e, b),
            s\<lparr>world := snd (op_StdinWrite ops h m ?w),
              trace := trace s @ map (Pair (restarting s))
                 (map (\<lambda>m. EvStdinWrite h m None) pre @ [EvStdinWrite h m (Some e)])\<rparr>)"
    using e by (simp add: rep stdin_write_snd s1 comp_def)
  with split ok' call show ?thesis by blast
qed

text \<open>
  The body of a restart cycle, as an equation for each of its three courses: the start
  fails; the start succeeds and every write of the replay succeeds; the start succeeds
  and some write fails. \<open>stop_r\<close>, \<open>h\<close> and \<open>w3\<close> are the result of the stop, the new
  handle and the world after the start.
\<close>

lemma restartPHP_body_unfold:
  assumes "op_Stop ops (process s) (world s) = (stop_r, w1)"
      and "op_New ops w1 = (h, w2)"
      and "op_Start ops h (workingDir s) (phpBinary s) w2 = (start_r, w3)"
  shows "restartPHP_body ops s =
     (let s5 = s\<lparr>process := h, world := w3,
                 trace := trace s @ map (Pair (restarting s))
                    (cycle_prefix (process s) stop_r h start_r)\<rparr>
      in case start_r of
           Some err \<Rightarrow> (Some (Errorf ''failed to start new PHP process: %w'' err), s5)
         | None \<Rightarrow>
             if messages (buffer s) \<noteq> [] then
               (case Replay (buffer s) (stdin_write ops h)
                       (s5\<lparr>trace := trace s5 @
                          [(restarting s, EvLog ''Replaying %d buffered messages''
                                            [ArgInt (int (length (messages (buffer s))))])]\<rparr>) of
                  ((Some e, b'), s7) \<Rightarrow>
                    (Some (Errorf ''failed to replay messages: %w'' e), s7\<lparr>buffer := b'\<rparr>)
                | ((None, b'), s7) \<Rightarrow> (None, s7\<lparr>buffer := b'\<rparr>))
             else (None, s5))"
  using assms
  by (simp add: restartPHP_body_def startPHP_def stopPHP_def log_printf_def emit_def Let_def
      Len_def cycle_prefix_def split: option.splits prod.splits)

lemma restartPHP_body_start_fails:
  assumes "op_Stop ops (process s) (world s) = (stop_r, w1)"
      and "op_New ops w1 = (h, w2)"
      and "op_Start ops h (workingDir s) (phpBinary s) w2 = (Some e, w3)"
  shows "restartPHP_body ops s =
     (Some (Errorf ''failed to start new PHP process: %w'' e),
      s\<lparr>process := h, world := w3,
        trace := trace s @ map (Pair (restarting s))
                   (cycle_prefix (process s) stop_r h (Some e))\<rparr>)"
  by (simp add: restartPHP_body_unfold [OF assms])

lemma restartPHP_body_replay_ok:
  assumes "op_Stop ops (process s) (world s) = (stop_r, w1)"
      and "op_New ops w1 = (h, w2)"
      and "op_Start ops h (workingDir s) (phpBinary s) w2 = (None, w3)"
      and "writes_ok (op_StdinWrite ops h) (messages (buffer s)) w3"
  shows "restartPHP_body ops s =
     (None,
      s\<lparr>process := h, buffer := (buffer s)\<lparr>messages := []\<rparr>,
        world := sink_after (op_StdinWrite ops h) (messages (buffer s)) w3,
        trace := trace s @ map (Pair (restarting s))
                   (cycle_prefix (process s) stop_r h None
                    @ cycle_replay h (messages (buffer s)))\<rparr>)"
proof (cases "messages (buffer s) = []")
  case True
  then show ?thesis
    by (simp add: restartPHP_body_unfold [OF assms(1-3)] cycle_replay_def messages_Nil_upd)
next
  case False
  let ?s6 = "s\<lparr>process := h, world := w3,
                 trace := trace s @ map (Pair (restarting s))
                    (cycle_prefix (process s) stop_r h None) @
                          [(restarting s, EvLog ''Replaying %d buffered messages''
                                            [ArgInt (int (length (messages (buffer s))))])]\<rparr>"
  have ok: "writes_ok (op_StdinWrite ops h) (messages (buffer s)) (world ?s6)"
    using assms(4) by simp
  have rep: "Replay (buffer s) (stdin_write ops h) ?s6 =
     ((None, (buffer s)\<lparr>messages := []\<rparr>),
      ?s6\<lparr>world := sink_after (op_StdinWrite ops h) (messages (buffer s)) (world ?s6),
        trace := trace ?s6 @ map (Pair (restarting ?s6))
                   (map (\<lambda>m. EvStdinWrite h m None) (messages (buffer s)))\<rparr>)"
    by (rule Replay_stdin_ok [OF ok])
  show ?thesis
    using False
    by (simp add: restartPHP_body_unfold [OF assms(1-3)] rep cycle_replay_def)
qed

lemma restartPHP_body_replay_fails:
  assumes "op_Stop ops (process s) (world s) = (stop_r, w1)"
      and "op_New ops w1 = (h, w2)"
      and "op_Start ops h (workingDir s) (phpBinary s) w2 = (None, w3)"
      and "\<not> writes_ok (op_StdinWrite ops h) (messages (buffer s)) w3"
  shows "\<exists>e pre m post W. messages (buffer s) = pre @ m # post
       \<and> writes_ok (op_StdinWrite ops h) pre w3
       \<and> op_StdinWrite ops h m (sink_after (op_StdinWrite ops h) pre w3) = (Some e, W)
       \<and> restartPHP_body ops s =
           (Some (Errorf ''failed to replay messages: %w'' e),
            s\<lparr>process := h, world := W,
              trace := trace s @ map (Pair (restarting s))
                 (cycle_prefix (process s) stop_r h None
                  @ EvLog ''Replaying %d buffered messages''
                      [ArgInt (int (length (messages (buffer s))))]
                    # map (\<lambda>m. EvStdinWrite h m None) pre @ [EvStdinWrite h m (Some e)])\<rparr>)"
proof -
  have ne: "messages (buffer s) \<noteq> []" using assms(4) by auto
  let ?s6 = "s\<lparr>process := h, world := w3,
                 trace := trace s @ map (Pair (restarting s))
                    (cycle_prefix (process s) stop_r h None) @
                          [(restarting s, EvLog ''Replaying %d buffered messages''
                                            [ArgInt (int (length (messages (buffer s))))])]\<rparr>"
  have bad: "\<not> writes_ok (op_StdinWrite ops h) (messages (buffer s)) (world ?s6)"
    using assms(4) by simp
  from Replay_stdin_fails [OF bad] obtain e pre m post W where
    split: "messages (buffer s) = pre @ m # post"
    and ok: "writes_ok (op_StdinWrite ops h) pre (world ?s6)"
    and call: "op_StdinWrite ops h m (sink_after (op_StdinWrite ops h) pre (world ?s6)) = (Some e, W)"
    and rep: "Replay (buffer s) (stdin_write ops h) ?s6 =
           ((Some e, buffer s),
            ?s6\<lparr>world := W,
              trace := trace ?s6 @ map (Pair (restarting ?s6))
                 (map (\<lambda>m. EvStdinWrite h m None) pre @ [EvStdinWrite h m (Some e)])\<rparr>)"
    by blast
  have ok': "writes_ok (op_StdinWrite ops h) pre w3" using ok by simp
  have call': "op_StdinWrite ops h m (sink_after (op_StdinWrite ops h) pre w3) = (Some e, W)"
    using call by simp
  have "restartPHP_body ops s =
           (Some (Errorf ''failed to replay messages: %w'' e),
            s\<lparr>process := h, world := W,
              trace := trace s @ map (Pair (restarting s))
                 (cycle_prefix (process s) stop_r h None
                  @ EvLog ''Replaying %d buffered messages''
                      [ArgInt (int (length (messages (buffer s))))]
                    # map (\<lambda>m. EvStdinWrite h m None) pre @ [EvStdinWrite h m (Some e)])\<rparr>)"
    using ne by (simp add: restartPHP_body_unfold [OF assms(1-3)] rep)
  with split ok' call' show ?thesis by blast
qed

text \<open>
  The same for the whole cycle: its events are stamped true and the flag ends false.
\<close>

lemma restartPHP_start_fails:
  assumes "op_Stop ops (process s) (world s) = (stop_r, w1)"
      and "op_New ops w1 = (h, w2)"
      and "op_Start ops h (workingDir s) (phpBinary s) w2 = (Some e, w3)"
  shows "restartPHP ops s =
     (Some (Errorf ''failed to start new PHP process: %w'' e),
      s\<lparr>process := h, restarting := False, world := w3,
        trace := trace s @ map (Pair True) (cycle_prefix (process s) stop_r h (Some e))\<rparr>)"
proof -
  let ?s0 = "s\<lparr>restarting := True\<rparr>"
  have a1: "op_Stop ops (process ?s0) (world ?s0) = (stop_r, w1)" using assms(1) by simp
  have a3: "op_Start ops h (workingDir ?s0) (phpBinary ?s0) w2 = (Some e, w3)"
    using assms(3) by simp
  show ?thesis
    by (simp add: restartPHP_def restartPHP_body_start_fails [OF a1 assms(2) a3])
qed

lemma restartPHP_replay_ok:
  assumes "op_Stop ops (process s) (world s) = (stop_r, w1)"
      and "op_New ops w1 = (h, w2)"
      and "op_Start ops h (workingDir s) (phpBinary s) w2 = (None, w3)"
      and "writes_ok (op_StdinWrite ops h) (messages (buffer s)) w3"
  shows "restartPHP ops s =
     (None,
      s\<lparr>process := h, buffer := (buffer s)\<lparr>messages := []\<rparr>, restarting := False,
        world := sink_after (op_StdinWrite ops h) (messages (buffer s)) w3,
        trace := trace s @ map (Pair True)
                   (cycle_prefix (process s) stop_r h None
                    @ cycle_replay h (messages (buffer s)))\<rparr>)"
proof -
  let ?s0 = "s\<lparr>restarting := True\<rparr>"
  have a1: "op_Stop ops (process ?s0) (world ?s0) = (stop_r, w1)" using assms(1) by simp
  have a3: "op_Start ops h (workingDir ?s0) (phpBinary ?s0) w2 = (None, w3)"
    using assms(3) by simp
  have a4: "writes_ok (op_StdinWrite ops h) (messages (buffer ?s0)) w3" using assms(4) by simp
  show ?thesis
    by (simp add: restartPHP_def restartPHP_body_replay_ok [OF a1 assms(2) a3 a4])
qed

lemma restartPHP_replay_fails:
  assumes "op_Stop ops (process s) (world s) = (stop_r, w1)"
      and "op_New ops w1 = (h, w2)"
      and "op_Start ops h (workingDir s) (phpBinary s) w2 = (None, w3)"
      and "\<not> writes_ok (op_StdinWrite ops h) (messages (buffer s)) w3"
  shows "\<exists>e pre m post W. messages (buffer s) = pre @ m # post
       \<and> writes_ok (op_StdinWrite ops h) pre w3
       \<and> op_StdinWrite ops h m (sink_after (op_StdinWrite ops h) pre w3) = (Some e, W)
       \<and> restartPHP ops s =
           (Some (Errorf ''failed to replay messages: %w'' e),
            s\<lparr>process := h, restarting := False, world := W,
              trace := trace s @ map (Pair True)
                 (cycle_prefix (process s) stop_r h None
                  @ EvLog ''Replaying %d buffered messages''
                      [ArgInt (int (length (messages (buffer s))))]
                    # map (\<lambda>m. EvStdinWrite h m None) pre @ [EvStdinWrite h m (Some e)])\<rparr>)"
proof -
  let ?s0 = "s\<lparr>restarting := True\<rparr>"
  have a1: "op_Stop ops (process ?s0) (world ?s0) = (stop_r, w1)" using assms(1) by simp
  have a3: "op_Start ops h (workingDir ?s0) (phpBinary ?s0) w2 = (None, w3)"
    using assms(3) by simp
  have a4: "\<not> writes_ok (op_StdinWrite ops h) (messages (buffer ?s0)) w3" using assms(4) by simp
  from restartPHP_body_replay_fails [OF a1 assms(2) a3 a4] obtain e pre m post W where
    f: "messages (buffer ?s0) = pre @ m # post"
       "writes_ok (op_StdinWrite ops h) pre w3"
       "op_StdinWrite ops h m (sink_after (op_StdinWrite ops h) pre w3) = (Some e, W)"
       "restartPHP_body ops ?s0 =
           (Some (Errorf ''failed to replay messages: %w'' e),
            ?s0\<lparr>process := h, world := W,
              trace := trace ?s0 @ map (Pair (restarting ?s0))
                 (cycle_prefix (process ?s0) stop_r h None
                  @ EvLog ''Replaying %d buffered messages''
                      [ArgInt (int (length (messages (buffer ?s0))))]
                    # map (\<lambda>m. EvStdinWrite h m None) pre @ [EvStdinWrite h m (Some e)])\<rparr>)"
    by blast
  have "restartPHP ops s =
           (Some (Errorf ''failed to replay messages: %w'' e),
            s\<lparr>process := h, restarting := False, world := W,
              trace := trace s @ map (Pair True)
                 (cycle_prefix (process s) stop_r h None
                  @ EvLog ''Replaying %d buffered messages''
                      [ArgInt (int (length (messages (buffer s))))]
                    # map (\<lambda>m. EvStdinWrite h m None) pre @ [EvStdinWrite h m (Some e)])\<rparr>)"
    by (simp add: restartPHP_def f(4))
  moreover have "messages (buffer s) = pre @ m # post" using f(1) by simp
  ultimately show ?thesis using f(2,3) by blast
qed

lemma calls_of_prefix:
  "filter is_worker_call (cycle_prefix old stop_r h start_r)
     = [EvStop old stop_r, EvNew h, EvStart h start_r]"
  by (simp add: cycle_prefix_def split: option.splits)

lemma calls_of_writes:
  "filter is_worker_call (map (\<lambda>m. EvStdinWrite h m r) ms) = map (\<lambda>m. EvStdinWrite h m r) ms"
  by (induction ms) simp_all

lemma calls_of_replay:
  "filter is_worker_call (cycle_replay h ms) = map (\<lambda>m. EvStdinWrite h m None) ms"
  by (simp add: cycle_replay_def calls_of_writes)




lemma stop_in_prefix: "EvStop old stop_r \<in> set (cycle_prefix old stop_r h start_r)"
  by (simp add: cycle_prefix_def)

lemma stop_log_in_prefix:
  "EvLog ''Error stopping PHP: %v'' [ArgErr e]
     \<in> set (filter is_log (cycle_prefix old (Some e) h start_r))"
  by (simp add: cycle_prefix_def)

lemma emitted_append: "trace s' = trace s @ T \<Longrightarrow> emitted s s' = T"
  by (simp add: emitted_def)

text \<open>
  What every return of the cycle has in common.
\<close>

lemma restartPHP_common:
  assumes "op_Stop ops (process s) (world s) = (stop_r, w1)"
      and "op_New ops w1 = (h, w2)"
      and "op_Start ops h (workingDir s) (phpBinary s) w2 = (start_r, w3)"
  shows "\<exists>T. emitted s (snd (restartPHP ops s))
              = map (Pair True) (cycle_prefix (process s) stop_r h start_r @ T)
       \<and> trace (snd (restartPHP ops s)) = trace s @ emitted s (snd (restartPHP ops s))
       \<and> restarting (snd (restartPHP ops s)) = False
       \<and> process (snd (restartPHP ops s)) = h
       \<and> (fst (restartPHP ops s) = None
           \<or> (\<exists>e. fst (restartPHP ops s) = Some (Errorf ''failed to start new PHP process: %w'' e))
           \<or> (\<exists>e. fst (restartPHP ops s) = Some (Errorf ''failed to replay messages: %w'' e)))"
proof -
  obtain r T W b' where eq: "restartPHP ops s =
      (r, s\<lparr>process := h, buffer := b', restarting := False, world := W,
           trace := trace s @ map (Pair True) (cycle_prefix (process s) stop_r h start_r @ T)\<rparr>)"
    and res: "r = None
           \<or> (\<exists>e. r = Some (Errorf ''failed to start new PHP process: %w'' e))
           \<or> (\<exists>e. r = Some (Errorf ''failed to replay messages: %w'' e))"
  proof (cases start_r)
    case (Some e)
    have "restartPHP ops s =
      (Some (Errorf ''failed to start new PHP process: %w'' e),
       s\<lparr>process := h, buffer := buffer s, restarting := False, world := w3,
           trace := trace s @ map (Pair True) (cycle_prefix (process s) stop_r h start_r @ [])\<rparr>)"
      by (simp add: restartPHP_start_fails [OF assms(1,2) assms(3) [unfolded Some]] Some)
    then show ?thesis using that by blast
  next
    case None
    note a3 = assms(3) [unfolded None]
    show ?thesis
    proof (cases "writes_ok (op_StdinWrite ops h) (messages (buffer s)) w3")
      case True
      have "restartPHP ops s =
        (None,
         s\<lparr>process := h, buffer := (buffer s)\<lparr>messages := []\<rparr>, restarting := False,
           world := sink_after (op_StdinWrite ops h) (messages (buffer s)) w3,
           trace := trace s @ map (Pair True)
              (cycle_prefix (process s) stop_r h start_r @ cycle_replay h (messages (buffer s)))\<rparr>)"
        by (simp add: restartPHP_replay_ok [OF assms(1,2) a3 True] None)
      then show ?thesis using that by blast
    next
      case False
      from restartPHP_replay_fails [OF assms(1,2) a3 False] obtain e pre m W and post :: "bytes list" where
        "restartPHP ops s =
           (Some (Errorf ''failed to replay messages: %w'' e),
            s\<lparr>process := h, restarting := False, world := W,
              trace := trace s @ map (Pair True)
                 (cycle_prefix (process s) stop_r h None
                  @ EvLog ''Replaying %d buffered messages''
                      [ArgInt (int (length (messages (buffer s))))]
                    # map (\<lambda>m. EvStdinWrite h m None) pre @ [EvStdinWrite h m (Some e)])\<rparr>)"
        by blast
      then have "restartPHP ops s =
           (Some (Errorf ''failed to replay messages: %w'' e),
            s\<lparr>process := h, buffer := buffer s, restarting := False, world := W,
              trace := trace s @ map (Pair True)
                 (cycle_prefix (process s) stop_r h start_r
                  @ (EvLog ''Replaying %d buffered messages''
                      [ArgInt (int (length (messages (buffer s))))]
                    # map (\<lambda>m. EvStdinWrite h m None) pre @ [EvStdinWrite h m (Some e)]))\<rparr>)"
        by (simp add: None)
      then show ?thesis using that by blast
    qed
  qed
  let ?s' = "snd (restartPHP ops s)"
  have em: "emitted s ?s' = map (Pair True) (cycle_prefix (process s) stop_r h start_r @ T)"
    by (rule emitted_append) (simp add: eq)
  then have ex: "\<exists>T. emitted s ?s' = map (Pair True) (cycle_prefix (process s) stop_r h start_r @ T)"
    by blast
  have tr: "trace ?s' = trace s @ emitted s ?s'" by (simp add: eq emitted_def)
  have flag: "restarting ?s' = False" and proc: "process ?s' = h" by (simp_all add: eq)
  have res': "fst (restartPHP ops s) = None
           \<or> (\<exists>e. fst (restartPHP ops s) = Some (Errorf ''failed to start new PHP process: %w'' e))
           \<or> (\<exists>e. fst (restartPHP ops s) = Some (Errorf ''failed to replay messages: %w'' e))"
    using res by (simp add: eq)
  from ex tr flag proc res' show ?thesis by blast
qed









text \<open>
  The definitions unfolded to run the model on the scripted worker.
\<close>

lemmas run_defs = restartPHP_def restartPHP_body_def startPHP_def stopPHP_def log_printf_def
  emit_def Replay_def stdin_write_def Len_def scripted_def running_def all_succeed_def
  next_result_def Let_def


subsection \<open>Routing of client input\<close>




subsection \<open>The restart cycle\<close>

text \<open>
  Claim C4. \<^verbatim>\<open>restartPHP\<close> only adds to the trace; every event it adds, the stop of
  the old worker among them, happens with \<^verbatim>\<open>restarting\<close> true; and on return the flag is
  false, whether the result is success, the wrapped spawn error or the wrapped replay
  error, which are the only results.
\<close>

theorem restart_flag_window:
  "restarting (snd (restartPHP ops s)) = False
   \<and> take (length (trace s)) (trace (snd (restartPHP ops s))) = trace s
   \<and> (\<forall>x \<in> set (emitted s (snd (restartPHP ops s))). fst x = True)
   \<and> (\<exists>r. (True, EvStop (process s) r) \<in> set (emitted s (snd (restartPHP ops s))))
   \<and> (fst (restartPHP ops s) = None
        \<or> (\<exists>e. fst (restartPHP ops s) = Some (Errorf ''failed to start new PHP process: %w'' e))
        \<or> (\<exists>e. fst (restartPHP ops s) = Some (Errorf ''failed to replay messages: %w'' e)))"
proof -
  obtain stop_r w1 where a1: "op_Stop ops (process s) (world s) = (stop_r, w1)" by (metis surj_pair)
  obtain h w2 where a2: "op_New ops w1 = (h, w2)" by (metis surj_pair)
  obtain start_r w3 where a3: "op_Start ops h (workingDir s) (phpBinary s) w2 = (start_r, w3)"
    by (metis surj_pair)
  let ?s' = "snd (restartPHP ops s)"
  from restartPHP_common [OF a1 a2 a3] obtain T where
    em: "emitted s ?s' = map (Pair True) (cycle_prefix (process s) stop_r h start_r @ T)"
    and tr: "trace ?s' = trace s @ emitted s ?s'"
    and flag: "restarting ?s' = False"
    and res: "fst (restartPHP ops s) = None
           \<or> (\<exists>e. fst (restartPHP ops s) = Some (Errorf ''failed to start new PHP process: %w'' e))
           \<or> (\<exists>e. fst (restartPHP ops s) = Some (Errorf ''failed to replay messages: %w'' e))"
    by blast
  have pre: "take (length (trace s)) (trace ?s') = trace s" by (simp add: tr)
  have stamped: "\<forall>x \<in> set (emitted s ?s'). fst x = True" by (auto simp: em)
  have "(True, EvStop (process s) stop_r) \<in> set (emitted s ?s')"
    using stop_in_prefix [of "process s" stop_r h start_r] by (auto simp: em)
  then have stop: "\<exists>r. (True, EvStop (process s) r) \<in> set (emitted s ?s')" by blast
  from flag pre stamped stop res show ?thesis by (intro conjI)
qed

theorem restart_flag_window_witness:
  "restartPHP scripted (running all_succeed [''x''])
     = (None,
        \<lparr>process = 1, buffer = \<lparr>messages = [], maxSize = 100\<rparr>, restarting = False,
         workingDir = ''/srv/debug-mcp'', phpBinary = ''php'', restartInterval = 60000000000,
         world = \<lparr>fresh = 2, starts = [], stops = [], waits = [], writes = []\<rparr>,
         trace = [(True, EvLog ''Buffering messages during restart'' []),
                  (True, EvStop 0 None),
                  (True, EvNew 1),
                  (True, EvLog ''Starting PHP process'' []),
                  (True, EvStart 1 None),
                  (True, EvLog ''Replaying %d buffered messages'' [ArgInt 1]),
                  (True, EvStdinWrite 1 ''x'' None)]\<rparr>)
   \<and> fst (restartPHP scripted (running (all_succeed\<lparr>starts := [Some (Err ''exec: not found'')]\<rparr>) [''x'']))
       = Some (Errorf ''failed to start new PHP process: %w'' (Err ''exec: not found''))
   \<and> restarting (snd (restartPHP scripted
         (running (all_succeed\<lparr>starts := [Some (Err ''exec: not found'')]\<rparr>) [''x'']))) = False
   \<and> fst (restartPHP scripted (running (all_succeed\<lparr>writes := [Some (Err ''broken pipe'')]\<rparr>) [''x'']))
       = Some (Errorf ''failed to replay messages: %w'' (Err ''broken pipe''))
   \<and> restarting (snd (restartPHP scripted
         (running (all_succeed\<lparr>writes := [Some (Err ''broken pipe'')]\<rparr>) [''x'']))) = False"
proof (intro conjI)
  show "restarting (snd (restartPHP scripted
         (running (all_succeed\<lparr>starts := [Some (Err ''exec: not found'')]\<rparr>) [''x'']))) = False"
    using restart_flag_window
      [of scripted "running (all_succeed\<lparr>starts := [Some (Err ''exec: not found'')]\<rparr>) [''x'']"]
    by (rule conjunct1)
  show "restarting (snd (restartPHP scripted
         (running (all_succeed\<lparr>writes := [Some (Err ''broken pipe'')]\<rparr>) [''x'']))) = False"
    using restart_flag_window
      [of scripted "running (all_succeed\<lparr>writes := [Some (Err ''broken pipe'')]\<rparr>) [''x'']"]
    by (rule conjunct1)
qed (simp_all add: run_defs)

text \<open>
  Claim C6. With \<open>stop_r\<close> the result of stopping the old worker, \<open>h\<close> the handle
  then allocated and \<open>start_r\<close> the result of starting it, which leaves the world \<open>w3\<close>:
  the calls of a restart cycle are, in this order, the stop of the old worker, the
  allocation of \<open>h\<close>, the start of \<open>h\<close>, and then the replay writes \<open>ws\<close>; \<open>h\<close>
  replaces the old handle in the proxy. A stop error is logged and the cycle goes on.
  When the start fails there is no write, the world stays \<open>w3\<close> and the result is the
  wrapped start error. When it succeeds, the buffered chunks are written to the input of
  \<open>h\<close> in order, each \<^verbatim>\<open>Write\<close> on the world the one before left. If all these writes
  succeed, the world is the one they leave, the buffer is left empty and the result is
  success. If not, the writes stop at the first failing one, the world is the one that
  write leaves, the result is its error, wrapped, and the buffer is unchanged.
\<close>

theorem restart_cycle_order:
  assumes "op_Stop ops (process s) (world s) = (stop_r, w1)"
      and "op_New ops w1 = (h, w2)"
      and "op_Start ops h (workingDir s) (phpBinary s) w2 = (start_r, w3)"
      and "restartPHP ops s = (r, s')"
  shows "\<exists>ws. calls_of (emitted s s') = [EvStop (process s) stop_r, EvNew h, EvStart h start_r] @ ws
     \<and> process s' = h
     \<and> (\<forall>e. stop_r = Some e \<longrightarrow>
           EvLog ''Error stopping PHP: %v'' [ArgErr e] \<in> set (logs_of (emitted s s')))
     \<and> (\<forall>e. start_r = Some e \<longrightarrow>
           ws = [] \<and> r = Some (Errorf ''failed to start new PHP process: %w'' e)
           \<and> buffer s' = buffer s \<and> world s' = w3)
     \<and> (start_r = None \<and> writes_ok (op_StdinWrite ops h) (messages (buffer s)) w3 \<longrightarrow>
           r = None \<and> ws = map (\<lambda>m. EvStdinWrite h m None) (messages (buffer s))
           \<and> world s' = sink_after (op_StdinWrite ops h) (messages (buffer s)) w3
           \<and> messages (buffer s') = [])
     \<and> (start_r = None \<and> \<not> writes_ok (op_StdinWrite ops h) (messages (buffer s)) w3 \<longrightarrow>
           (\<exists>e pre m post. messages (buffer s) = pre @ m # post
              \<and> writes_ok (op_StdinWrite ops h) pre w3
              \<and> op_StdinWrite ops h m (sink_after (op_StdinWrite ops h) pre w3) = (Some e, world s')
              \<and> r = Some (Errorf ''failed to replay messages: %w'' e)
              \<and> ws = map (\<lambda>m. EvStdinWrite h m None) pre @ [EvStdinWrite h m (Some e)]
              \<and> buffer s' = buffer s))"
proof -
  let ?A = "\<lambda>ws. calls_of (emitted s s')
              = [EvStop (process s) stop_r, EvNew h, EvStart h start_r] @ ws"
  let ?B = "\<forall>e. stop_r = Some e \<longrightarrow>
           EvLog ''Error stopping PHP: %v'' [ArgErr e] \<in> set (logs_of (emitted s s'))"
  let ?C = "\<lambda>ws. \<forall>e. start_r = Some e \<longrightarrow>
           ws = [] \<and> r = Some (Errorf ''failed to start new PHP process: %w'' e)
           \<and> buffer s' = buffer s \<and> world s' = w3"
  let ?D = "\<lambda>ws. start_r = None \<and> writes_ok (op_StdinWrite ops h) (messages (buffer s)) w3 \<longrightarrow>
           r = None \<and> ws = map (\<lambda>m. EvStdinWrite h m None) (messages (buffer s))
           \<and> world s' = sink_after (op_StdinWrite ops h) (messages (buffer s)) w3
           \<and> messages (buffer s') = []"
  let ?E = "\<lambda>ws. start_r = None \<and> \<not> writes_ok (op_StdinWrite ops h) (messages (buffer s)) w3 \<longrightarrow>
           (\<exists>e pre m post. messages (buffer s) = pre @ m # post
              \<and> writes_ok (op_StdinWrite ops h) pre w3
              \<and> op_StdinWrite ops h m (sink_after (op_StdinWrite ops h) pre w3) = (Some e, world s')
              \<and> r = Some (Errorf ''failed to replay messages: %w'' e)
              \<and> ws = map (\<lambda>m. EvStdinWrite h m None) pre @ [EvStdinWrite h m (Some e)]
              \<and> buffer s' = buffer s)"
  have logged: ?B if "emitted s s' = map (Pair True) (cycle_prefix (process s) stop_r h start_r @ T)"
    for T
    by (simp add: that logs_of_def comp_def cycle_prefix_def)
  have "\<exists>ws. ?A ws \<and> process s' = h \<and> ?B \<and> ?C ws \<and> ?D ws \<and> ?E ws"
  proof (cases start_r)
    case (Some e)
    note eq = restartPHP_start_fails [OF assms(1,2) assms(3) [unfolded Some]]
    have s': "s' = s\<lparr>process := h, restarting := False, world := w3,
          trace := trace s @ map (Pair True) (cycle_prefix (process s) stop_r h (Some e))\<rparr>"
      and r: "r = Some (Errorf ''failed to start new PHP process: %w'' e)"
      using assms(4) eq by simp_all
    have em: "emitted s s' = map (Pair True) (cycle_prefix (process s) stop_r h start_r @ [])"
      by (rule emitted_append) (simp add: s' Some)
    have A: "?A []" by (simp add: em calls_of_def comp_def calls_of_prefix)
    have P: "process s' = h" by (simp add: s')
    have C: "?C []" using Some r by (simp add: s')
    have D: "?D []" using Some by simp
    have E: "?E []" using Some by simp
    from A P logged [OF em] C D E show ?thesis by blast
  next
    case None
    note a3 = assms(3) [unfolded None]
    show ?thesis
    proof (cases "writes_ok (op_StdinWrite ops h) (messages (buffer s)) w3")
      case True
      note eq = restartPHP_replay_ok [OF assms(1,2) a3 True]
      let ?ws = "map (\<lambda>m. EvStdinWrite h m None) (messages (buffer s))"
      have s': "s' = s\<lparr>process := h, buffer := (buffer s)\<lparr>messages := []\<rparr>,
          restarting := False,
          world := sink_after (op_StdinWrite ops h) (messages (buffer s)) w3,
          trace := trace s @ map (Pair True)
                     (cycle_prefix (process s) stop_r h None
                      @ cycle_replay h (messages (buffer s)))\<rparr>"
        and r: "r = None"
        using assms(4) eq by simp_all
      have em: "emitted s s' = map (Pair True) (cycle_prefix (process s) stop_r h start_r
                      @ cycle_replay h (messages (buffer s)))"
        by (rule emitted_append) (simp add: s' None)
      have A: "?A ?ws"
        by (simp add: em calls_of_def comp_def calls_of_prefix calls_of_replay)
      have P: "process s' = h" by (simp add: s')
      have C: "?C ?ws" using None by simp
      have D: "?D ?ws" using r by (simp add: s')
      have E: "?E ?ws" using True by simp
      from A P logged [OF em] C D E show ?thesis by blast
    next
      case False
      from restartPHP_replay_fails [OF assms(1,2) a3 False] obtain e pre m post W where
        split: "messages (buffer s) = pre @ m # post"
        and ok: "writes_ok (op_StdinWrite ops h) pre w3"
        and call: "op_StdinWrite ops h m (sink_after (op_StdinWrite ops h) pre w3) = (Some e, W)"
        and eq: "restartPHP ops s =
             (Some (Errorf ''failed to replay messages: %w'' e),
              s\<lparr>process := h, restarting := False, world := W,
                trace := trace s @ map (Pair True)
                   (cycle_prefix (process s) stop_r h None
                    @ EvLog ''Replaying %d buffered messages''
                        [ArgInt (int (length (messages (buffer s))))]
                      # map (\<lambda>m. EvStdinWrite h m None) pre @ [EvStdinWrite h m (Some e)])\<rparr>)"
        by blast
      let ?ws = "map (\<lambda>m. EvStdinWrite h m None) pre @ [EvStdinWrite h m (Some e)]"
      have s': "s' = s\<lparr>process := h, restarting := False, world := W,
                trace := trace s @ map (Pair True)
                   (cycle_prefix (process s) stop_r h None
                    @ EvLog ''Replaying %d buffered messages''
                        [ArgInt (int (length (messages (buffer s))))]
                      # map (\<lambda>m. EvStdinWrite h m None) pre @ [EvStdinWrite h m (Some e)])\<rparr>"
        and r: "r = Some (Errorf ''failed to replay messages: %w'' e)"
        using assms(4) eq by simp_all
      have em: "emitted s s' = map (Pair True)
                   (cycle_prefix (process s) stop_r h start_r
                    @ (EvLog ''Replaying %d buffered messages''
                        [ArgInt (int (length (messages (buffer s))))]
                      # map (\<lambda>m. EvStdinWrite h m None) pre @ [EvStdinWrite h m (Some e)]))"
        by (rule emitted_append) (simp add: s' None)
      have A: "?A ?ws"
        by (simp add: em calls_of_def comp_def calls_of_prefix calls_of_writes)
      have P: "process s' = h" and bf: "buffer s' = buffer s" and wd: "world s' = W"
        by (simp_all add: s')
      have C: "?C ?ws" using None by simp
      have D: "?D ?ws" using False by simp
      have "messages (buffer s) = pre @ m # post
              \<and> writes_ok (op_StdinWrite ops h) pre w3
              \<and> op_StdinWrite ops h m (sink_after (op_StdinWrite ops h) pre w3) = (Some e, world s')
              \<and> r = Some (Errorf ''failed to replay messages: %w'' e)
              \<and> ?ws = map (\<lambda>m. EvStdinWrite h m None) pre @ [EvStdinWrite h m (Some e)]
              \<and> buffer s' = buffer s"
        using split ok call r bf by (simp only: wd)
      then have E: "?E ?ws" by blast
      from A P logged [OF em] C D E show ?thesis by blast
    qed
  qed
  then show ?thesis .
qed

theorem restart_cycle_order_witness:
  "op_Stop scripted 0 (all_succeed\<lparr>writes := [None, Some (Err ''broken pipe'')]\<rparr>)
     = (None, all_succeed\<lparr>writes := [None, Some (Err ''broken pipe'')]\<rparr>)
   \<and> op_New scripted (all_succeed\<lparr>writes := [None, Some (Err ''broken pipe'')]\<rparr>)
     = (1, all_succeed\<lparr>fresh := 2, writes := [None, Some (Err ''broken pipe'')]\<rparr>)
   \<and> op_Start scripted 1 ''/srv/debug-mcp'' ''php''
        (all_succeed\<lparr>fresh := 2, writes := [None, Some (Err ''broken pipe'')]\<rparr>)
     = (None, all_succeed\<lparr>fresh := 2, writes := [None, Some (Err ''broken pipe'')]\<rparr>)
   \<and> \<not> writes_ok (op_StdinWrite scripted 1) [''x'', ''y'']
        (all_succeed\<lparr>fresh := 2, writes := [None, Some (Err ''broken pipe'')]\<rparr>)
   \<and> restartPHP scripted
        (running (all_succeed\<lparr>writes := [None, Some (Err ''broken pipe'')]\<rparr>) [''x'', ''y''])
     = (Some (Errorf ''failed to replay messages: %w'' (Err ''broken pipe'')),
        \<lparr>process = 1, buffer = \<lparr>messages = [''x'', ''y''], maxSize = 100\<rparr>,
         restarting = False, workingDir = ''/srv/debug-mcp'', phpBinary = ''php'',
         restartInterval = 60000000000,
         world = all_succeed\<lparr>fresh := 2\<rparr>,
         trace = [(True, EvLog ''Buffering messages during restart'' []),
                  (True, EvStop 0 None),
                  (True, EvNew 1),
                  (True, EvLog ''Starting PHP process'' []),
                  (True, EvStart 1 None),
                  (True, EvLog ''Replaying %d buffered messages'' [ArgInt 2]),
                  (True, EvStdinWrite 1 ''x'' None),
                  (True, EvStdinWrite 1 ''y'' (Some (Err ''broken pipe'')))]\<rparr>)
   \<and> map snd (trace (snd (restartPHP scripted
        (running (all_succeed\<lparr>stops := [Some (Err ''os: process already finished'')]\<rparr>)
           [''x'', ''y'']))))
     = [EvLog ''Buffering messages during restart'' [],
        EvStop 0 (Some (Err ''os: process already finished'')),
        EvLog ''Error stopping PHP: %v'' [ArgErr (Err ''os: process already finished'')],
        EvNew 1, EvLog ''Starting PHP process'' [], EvStart 1 None,
        EvLog ''Replaying %d buffered messages'' [ArgInt 2],
        EvStdinWrite 1 ''x'' None, EvStdinWrite 1 ''y'' None]
   \<and> fst (restartPHP scripted
        (running (all_succeed\<lparr>stops := [Some (Err ''os: process already finished'')]\<rparr>)
           [''x'', ''y''])) = None"
proof -
  let ?W = "all_succeed\<lparr>writes := [None, Some (Err ''broken pipe'')]\<rparr>"
  let ?W2 = "all_succeed\<lparr>fresh := 2, writes := [None, Some (Err ''broken pipe'')]\<rparr>"
  let ?S = "running ?W [''x'', ''y'']"
  have f: "process ?S = 0 \<and> world ?S = ?W \<and> workingDir ?S = ''/srv/debug-mcp''
      \<and> phpBinary ?S = ''php'' \<and> messages (buffer ?S) = [''x'', ''y'']"
    by (simp add: running_def)
  have h1: "op_Stop scripted (process ?S) (world ?S) = (None, ?W)"
    by (simp add: scripted_def running_def all_succeed_def next_result_def)
  have h2: "op_New scripted ?W = (1, ?W2)"
    by (simp add: scripted_def all_succeed_def)
  have h3: "op_Start scripted 1 (workingDir ?S) (phpBinary ?S) ?W2 = (None, ?W2)"
    by (simp add: scripted_def running_def all_succeed_def next_result_def)
  have h4: "restartPHP scripted ?S = (fst (restartPHP scripted ?S), snd (restartPHP scripted ?S))"
    by simp
  have bad: "\<not> writes_ok (op_StdinWrite scripted 1) (messages (buffer ?S)) ?W2"
    by (simp add: scripted_def running_def all_succeed_def next_result_def)
  from restart_cycle_order [OF h1 h2 h3 h4] bad
  have "\<exists>e. fst (restartPHP scripted ?S) = Some (Errorf ''failed to replay messages: %w'' e)"
    by blast
  then have used: "fst (restartPHP scripted ?S) \<noteq> None" by auto
  have ev: "restartPHP scripted ?S
     = (Some (Errorf ''failed to replay messages: %w'' (Err ''broken pipe'')),
        \<lparr>process = 1, buffer = \<lparr>messages = [''x'', ''y''], maxSize = 100\<rparr>,
         restarting = False, workingDir = ''/srv/debug-mcp'', phpBinary = ''php'',
         restartInterval = 60000000000,
         world = all_succeed\<lparr>fresh := 2\<rparr>,
         trace = [(True, EvLog ''Buffering messages during restart'' []),
                  (True, EvStop 0 None),
                  (True, EvNew 1),
                  (True, EvLog ''Starting PHP process'' []),
                  (True, EvStart 1 None),
                  (True, EvLog ''Replaying %d buffered messages'' [ArgInt 2]),
                  (True, EvStdinWrite 1 ''x'' None),
                  (True, EvStdinWrite 1 ''y'' (Some (Err ''broken pipe'')))]\<rparr>)"
    using used by (simp add: run_defs)
  have ok: "map snd (trace (snd (restartPHP scripted
        (running (all_succeed\<lparr>stops := [Some (Err ''os: process already finished'')]\<rparr>)
           [''x'', ''y'']))))
     = [EvLog ''Buffering messages during restart'' [],
        EvStop 0 (Some (Err ''os: process already finished'')),
        EvLog ''Error stopping PHP: %v'' [ArgErr (Err ''os: process already finished'')],
        EvNew 1, EvLog ''Starting PHP process'' [], EvStart 1 None,
        EvLog ''Replaying %d buffered messages'' [ArgInt 2],
        EvStdinWrite 1 ''x'' None, EvStdinWrite 1 ''y'' None]
   \<and> fst (restartPHP scripted
        (running (all_succeed\<lparr>stops := [Some (Err ''os: process already finished'')]\<rparr>)
           [''x'', ''y''])) = None"
    by (simp add: run_defs)
  from h1 h2 h3 bad ev ok show ?thesis by (simp only: f) simp
qed

subsection \<open>The crash monitor\<close>




subsection \<open>The result of Run\<close>




end
